theory Spec2Isabelle
  imports Complex_Main
begin

section \<open>Values: exceptions, floating-point specials, arrays\<close>

text \<open>
  The functions of \<^verbatim>\<open>RVGP/geometry.py\<close> are embedded as HOL functions. An exception is
  a value \<open>Inl e\<close> of a sum type. A NumPy \<^verbatim>\<open>float64\<close> is a real number or one of the
  specials \<open>inf\<close>, \<open>-inf\<close>, \<open>nan\<close>; rounding and signed zeros are not modelled, so a
  finite result is the exact real result. Dense and sparse matrices are both lists of rows:
  sparsity is a storage format, the entries are the same.
\<close>

datatype py_error =
    IndexError | ValueError | ZeroDivisionError | AssertionError | AttributeError
  | UnboundLocalError | NotImplementedError | TypeError | NetworkXError

datatype float64 = Fin real | PInf | NInf | NaN

type_synonym vec = "real list"
type_synonym mat = "real list list"
type_synonym fmat = "float64 list list"

text \<open>\<^verbatim>\<open>np.true_divide\<close> on finite operands: division by zero is not an exception.\<close>

definition true_divide :: "real \<Rightarrow> real \<Rightarrow> float64" where
  "true_divide a b =
     (if b \<noteq> 0 then Fin (a / b)
      else if 0 < a then PInf
      else if a < 0 then NInf
      else NaN)"

text \<open>Multiplication of \<^verbatim>\<open>float64\<close> values: \<open>0 * inf\<close> and anything with \<open>nan\<close> is \<open>nan\<close>.\<close>

fun f_mul :: "float64 \<Rightarrow> float64 \<Rightarrow> float64" where
  "f_mul (Fin a) (Fin b) = Fin (a * b)"
| "f_mul NaN _ = NaN"
| "f_mul _ NaN = NaN"
| "f_mul (Fin a) PInf = (if a = 0 then NaN else if 0 < a then PInf else NInf)"
| "f_mul (Fin a) NInf = (if a = 0 then NaN else if 0 < a then NInf else PInf)"
| "f_mul PInf (Fin b) = (if b = 0 then NaN else if 0 < b then PInf else NInf)"
| "f_mul NInf (Fin b) = (if b = 0 then NaN else if 0 < b then NInf else PInf)"
| "f_mul PInf PInf = PInf"
| "f_mul PInf NInf = NInf"
| "f_mul NInf PInf = NInf"
| "f_mul NInf NInf = PInf"

text \<open>The comparison \<^verbatim>\<open><\<close>: false whenever an operand is \<open>nan\<close>.\<close>

fun f_less :: "float64 \<Rightarrow> float64 \<Rightarrow> bool" where
  "f_less (Fin a) (Fin b) = (a < b)"
| "f_less NaN _ = False"
| "f_less _ NaN = False"
| "f_less (Fin a) PInf = True"
| "f_less (Fin a) NInf = False"
| "f_less PInf _ = False"
| "f_less NInf (Fin b) = True"
| "f_less NInf PInf = True"
| "f_less NInf NInf = False"

definition is_finite :: "float64 \<Rightarrow> bool" where
  "is_finite v = (case v of Fin _ \<Rightarrow> True | _ \<Rightarrow> False)"

text \<open>The shape of a two-dimensional array stored as a list of rows.\<close>

definition nrows :: "'a list list \<Rightarrow> nat" where
  "nrows M = length M"

definition ncols :: "'a list list \<Rightarrow> nat" where
  "ncols M = (case M of [] \<Rightarrow> 0 | r # _ \<Rightarrow> length r)"

definition is_array :: "nat \<Rightarrow> nat \<Rightarrow> 'a list list \<Rightarrow> bool" where
  "is_array r c M = (length M = r \<and> list_all (\<lambda>row. length row = c) M)"

text \<open>The identity matrix.\<close>

definition identity :: "nat \<Rightarrow> mat" where
  "identity n = map (\<lambda>r. map (\<lambda>c. if r = c then 1 else 0) [0..<n]) [0..<n]"

section \<open>Graphs\<close>

text \<open>
  A \<^verbatim>\<open>networkx.Graph\<close>: the nodes in insertion order (\<^verbatim>\<open>G.nodes\<close>), the symmetric
  adjacency dictionary with the edge attribute \<^verbatim>\<open>weight\<close> (\<^verbatim>\<open>G.adj[u][v]\<close>; an edge
  without the attribute counts with weight 1, which is stored here), and the node attribute
  \<^verbatim>\<open>pos\<close>. In a graph built by networkx every neighbour is a node, the node list has no
  duplicates and \<open>adj G u v = adj G v u\<close>.
\<close>

record graph =
  nodes :: "nat list"
  adj :: "nat \<Rightarrow> nat \<Rightarrow> real option"
  pos :: "nat \<Rightarrow> real list option"

definition empty_graph :: "nat \<Rightarrow> graph" where
  "empty_graph n = \<lparr> nodes = [0..<n], adj = (\<lambda>u v. None), pos = (\<lambda>u. None) \<rparr>"

text \<open>\<^verbatim>\<open>G.add_edge(u, v, weight=w)\<close> between existing nodes: both directions are stored.\<close>

definition add_edge :: "nat \<Rightarrow> nat \<Rightarrow> real \<Rightarrow> graph \<Rightarrow> graph" where
  "add_edge u v w G =
     G\<lparr> adj := (\<lambda>a b. if (a = u \<and> b = v) \<or> (a = v \<and> b = u) then Some w else adj G a b) \<rparr>"

text \<open>
  \<^verbatim>\<open>G.degree[u]\<close>: the number of neighbours of \<open>u\<close>, a self-loop counted twice. The edge
  weights play no role.
\<close>

definition degree :: "graph \<Rightarrow> nat \<Rightarrow> nat" where
  "degree G u =
     length (filter (\<lambda>v. adj G u v \<noteq> None) (nodes G)) + (if adj G u u \<noteq> None then 1 else 0)"

text \<open>
  The weighted adjacency matrix (\<^verbatim>\<open>nx.to_scipy_sparse_array\<close>), rows and columns in the
  order of \<^verbatim>\<open>G.nodes\<close>; a self-loop contributes its weight once to the diagonal.
\<close>

definition weight :: "graph \<Rightarrow> nat \<Rightarrow> nat \<Rightarrow> real" where
  "weight G u v = (case adj G u v of None \<Rightarrow> 0 | Some w \<Rightarrow> w)"

definition adjacency_matrix :: "graph \<Rightarrow> mat" where
  "adjacency_matrix G = map (\<lambda>u. map (\<lambda>v. weight G u v) (nodes G)) (nodes G)"

text \<open>
  \<^verbatim>\<open>nx.laplacian_matrix(G)\<close>: \<open>D - A\<close>, where \<open>D\<close> is the diagonal matrix of the row sums
  of \<open>A\<close>.
\<close>

definition laplacian_matrix :: "graph \<Rightarrow> mat" where
  "laplacian_matrix G =
     (let A = adjacency_matrix G; n = length A
      in map (\<lambda>r. map (\<lambda>c. (if r = c then sum_list (A ! r) else 0) - A ! r ! c) [0..<n]) [0..<n])"

section \<open>The scalar Laplacian\<close>

text \<open>
  \<^verbatim>\<open>
  def compute_laplacian(G, normalization=None):
      laplacian = sparse.csr_matrix(nx.laplacian_matrix(G), dtype=np.float64)
      if normalization == "rw":
          deg = np.array([G.degree[i] for i in G.nodes])
          laplacian /= deg
          laplacian = sparse.csr_matrix(laplacian, dtype=np.float64)
      return laplacian
  \<close>
  \<^verbatim>\<open>nx.laplacian_matrix\<close> raises \<^verbatim>\<open>NetworkXError\<close> for a graph without nodes. The
  in-place division of a sparse matrix by a one-dimensional array is not supported, so Python
  falls back to \<^verbatim>\<open>laplacian = laplacian / deg\<close>. The division of a sparse matrix by a dense
  array multiplies the stored entries of the matrix by the reciprocal \<^verbatim>\<open>1 / deg\<close>, and
  broadcasting aligns the array with the last axis: a stored entry \<open>(r, c)\<close> is multiplied by
  \<open>1 / deg[c]\<close>, and an entry that is not stored stays 0. The stored entries of the sparse
  difference \<open>D - A\<close> are its nonzero entries.
\<close>

definition compute_laplacian :: "graph \<Rightarrow> string option \<Rightarrow> py_error + fmat" where
  "compute_laplacian G normalization =
     (if nodes G = [] then Inl NetworkXError
      else
        (let laplacian = laplacian_matrix G
         in if normalization = Some ''rw'' then
              (let deg = map (\<lambda>i. real (degree G i)) (nodes G);
                   recip = map (true_divide 1) deg
               in Inr (map (\<lambda>row. map2 (\<lambda>v s. if v = 0 then Fin 0 else f_mul (Fin v) s) row recip)
                         laplacian))
            else Inr (map (map Fin) laplacian)))"

text \<open>Sum of a row of \<^verbatim>\<open>float64\<close> values, taken when every entry is finite.\<close>

definition row_sum :: "float64 list \<Rightarrow> real option" where
  "row_sum row =
     (if list_all is_finite row then Some (sum_list (map (\<lambda>v. case v of Fin a \<Rightarrow> a | _ \<Rightarrow> 0) row))
      else None)"

text \<open>Some small graphs.\<close>

definition path3 :: graph where
  "path3 = add_edge 1 2 1 (add_edge 0 1 1 (empty_graph 3))"

definition edge_and_isolated :: graph where
  "edge_and_isolated = add_edge 0 1 1 (empty_graph 3)"

text \<open>
  The normalization as the specification words it: each row \<open>i\<close> divided element-wise by the
  degree of node \<open>i\<close>.
\<close>

definition rows_divided_by_degree :: "graph \<Rightarrow> fmat" where
  "rows_divided_by_degree G =
     map2 (\<lambda>row d. map (\<lambda>v. true_divide v d) row)
       (laplacian_matrix G) (map (\<lambda>i. real (degree G i)) (nodes G))"

section \<open>The connection Laplacian\<close>

text \<open>
  \<^verbatim>\<open>sparse.kron(laplacian, np.ones([dim, dim]))\<close>: entry \<open>(r, c)\<close> of the result is entry
  \<open>(r div dim, c div dim)\<close> of the Laplacian times the entry 1 of the block of ones.
\<close>

definition kron_ones :: "fmat \<Rightarrow> nat \<Rightarrow> fmat" where
  "kron_ones L dm =
     map (\<lambda>r. map (\<lambda>c. f_mul (L ! (r div dm) ! (c div dm)) (Fin 1)) [0..<ncols L * dm])
       [0..<nrows L * dm]"

text \<open>
  \<^verbatim>\<open>laplacian.multiply(R)\<close>, the element-wise product with broadcasting: along each axis
  the two lengths are equal or one of them is 1, and an operand of length 1 is repeated along
  that axis; otherwise the shapes are inconsistent and the product raises \<^verbatim>\<open>ValueError\<close>.
\<close>

definition broadcast_length :: "nat \<Rightarrow> nat \<Rightarrow> nat option" where
  "broadcast_length a b =
     (if a = b then Some a else if a = 1 then Some b else if b = 1 then Some a else None)"

definition multiply :: "fmat \<Rightarrow> mat \<Rightarrow> py_error + fmat" where
  "multiply A R =
     (case (broadcast_length (nrows A) (nrows R), broadcast_length (ncols A) (ncols R)) of
        (Some rows, Some cols) \<Rightarrow>
          Inr (map (\<lambda>r. map (\<lambda>c.
                 f_mul (A ! (if nrows A = 1 then 0 else r) ! (if ncols A = 1 then 0 else c))
                       (Fin (R ! (if nrows R = 1 then 0 else r) ! (if ncols R = 1 then 0 else c))))
                 [0..<cols]) [0..<rows])
      | _ \<Rightarrow> Inl ValueError)"

text \<open>
  \<^verbatim>\<open>sparse.diags(deg_inv, 0, format='csr') @ Lc\<close>: the product with a diagonal matrix
  scales row \<open>r\<close> of \<open>Lc\<close> by \<open>deg_inv[r]\<close>.
\<close>

definition diags_matmul :: "float64 list \<Rightarrow> fmat \<Rightarrow> fmat" where
  "diags_matmul ds M = map2 (\<lambda>s row. map (f_mul s) row) ds M"

text \<open>
  \<^verbatim>\<open>
  def compute_connection_laplacian(G, R, normalization=None):
      n = len(G)
      dim = R.shape[0] // n
      laplacian = compute_laplacian(G)
      laplacian = sparse.kron(laplacian, np.ones([dim, dim]))
      Lc = laplacian.multiply(R)
      if normalization == "rw":
          deg = np.array(list(dict(G.degree()).values()))
          deg_inv = 1.0 / deg
          deg_inv[deg_inv == float("inf")] = 0
          deg_inv = deg_inv.repeat(dim, axis=0)
          Lc = sparse.diags(deg_inv, 0, format='csr') @ Lc
      elif normalization == "sym":
          raise NotImplementedError
      return Lc
  \<close>
\<close>

definition compute_connection_laplacian ::
  "graph \<Rightarrow> mat \<Rightarrow> string option \<Rightarrow> py_error + fmat" where
  "compute_connection_laplacian G R normalization =
     (let n = length (nodes G)
      in if n = 0 then Inl ZeroDivisionError
         else
           (let dm = nrows R div n
            in case compute_laplacian G None of
                 Inl e \<Rightarrow> Inl e
               | Inr laplacian \<Rightarrow>
                   (let laplacian = kron_ones laplacian dm
                    in case multiply laplacian R of
                         Inl e \<Rightarrow> Inl e
                       | Inr Lc \<Rightarrow>
                           if normalization = Some ''rw'' then
                             (let deg = map (\<lambda>u. real (degree G u)) (nodes G);
                                  deg_inv = map (true_divide 1) deg;
                                  deg_inv = map (\<lambda>v. if v = PInf then Fin 0 else v) deg_inv;
                                  deg_inv = concat (map (replicate dm) deg_inv)
                              in Inr (diags_matmul deg_inv Lc))
                           else if normalization = Some ''sym'' then Inl NotImplementedError
                           else Inr Lc)))"

text \<open>Block \<open>(i, j)\<close> of a matrix of \<open>d \<times> d\<close> blocks.\<close>

definition block :: "'a list list \<Rightarrow> nat \<Rightarrow> nat \<Rightarrow> nat \<Rightarrow> 'a list list" where
  "block M d i j = map (\<lambda>a. map (\<lambda>b. M ! (i * d + a) ! (j * d + b)) [0..<d]) [0..<d]"

text \<open>
  The transport matrices over the graph with the edge \<open>0 - 1\<close> and the isolated node \<open>2\<close>,
  in dimension 2: identity blocks on the diagonal and at the edge, zero blocks elsewhere.
\<close>

definition transport_edge_and_isolated :: mat where
  "transport_edge_and_isolated =
     [[1, 0, 1, 0, 0, 0],
      [0, 1, 0, 1, 0, 0],
      [1, 0, 1, 0, 0, 0],
      [0, 1, 0, 1, 0, 0],
      [0, 0, 0, 0, 1, 0],
      [0, 0, 0, 0, 0, 1]]"

text \<open>
  The weighted degree of the node at position \<open>r\<close>: the sum of the weights of its edges to
  the nodes at the other positions (a self-loop does not count).
\<close>

definition weighted_degree :: "graph \<Rightarrow> nat \<Rightarrow> real" where
  "weighted_degree G r =
     sum_list (map (\<lambda>c. if r = c then 0 else weight G (nodes G ! r) (nodes G ! c))
       [0..<length (nodes G)])"

text \<open>
  The block pattern as the specification words it: block \<open>(i, j)\<close> is nonzero exactly when
  \<open>i = j\<close> or \<open>i\<close> and \<open>j\<close> are joined by an edge.
\<close>

definition spec_block_pattern :: "graph \<Rightarrow> nat \<Rightarrow> fmat \<Rightarrow> bool" where
  "spec_block_pattern G d Lc =
     list_all (\<lambda>i. list_all (\<lambda>j.
         (block Lc d i j \<noteq> replicate d (replicate d (Fin 0)))
           = (i = j \<or> adj G (nodes G ! i) (nodes G ! j) \<noteq> None))
       [0..<length (nodes G)]) [0..<length (nodes G)]"

section \<open>The spectrum\<close>

text \<open>
  The eigensolver \<^verbatim>\<open>scipy.sparse.linalg.eigsh(laplacian, k=..., which="SM")\<close> is a library
  routine; the model takes it as a parameter. It returns \<open>k\<close> eigenvalues and an array with
  one row per vertex and \<open>k\<close> columns of unit Euclidean norm, or it raises.
\<close>

type_synonym 'a eigensolver = "'a list list \<Rightarrow> int \<Rightarrow> py_error + (vec \<times> mat)"

text \<open>The slice \<^verbatim>\<open>xs[:k]\<close>; a negative \<open>k\<close> counts from the end.\<close>

definition py_take :: "int \<Rightarrow> 'a list \<Rightarrow> 'a list" where
  "py_take k xs = (if 0 \<le> k then take (nat k) xs else take (length xs - nat (- k)) xs)"

text \<open>
  \<^verbatim>\<open>
  def compute_spectrum(laplacian, n_eigenpairs=None, dtype=torch.float32):
      if n_eigenpairs is None:
          n_eigenpairs = laplacian.shape[0]
      if n_eigenpairs >= laplacian.shape[0]:
          print("Number of features is greater than number of vertices. Number of features will be reduced.")
          n_eigenpairs = laplacian.shape[0]
      evals, evecs = scipy.sparse.linalg.eigsh(laplacian, k=n_eigenpairs, which="SM")
      evecs = evecs[:, :n_eigenpairs]/math.sqrt(len(evecs))
      evals = torch.tensor(evals, dtype=torch.float32)
      evecs = torch.tensor(evecs, dtype=torch.float32)
      return evals, evecs
  \<close>
  The result is the list of printed lines and the value or exception. The division is by a
  positive number whenever there is an entry to divide. The conversion to single precision
  is a rounding and is not modelled.
\<close>

definition reduced_message :: string where
  "reduced_message =
     ''Number of features is greater than number of vertices. Number of features will be reduced.''"

definition compute_spectrum ::
  "'a eigensolver \<Rightarrow> 'a list list \<Rightarrow> int option \<Rightarrow> string list \<times> (py_error + (vec \<times> mat))" where
  "compute_spectrum eigsh laplacian n_eigenpairs =
     (let n_eigenpairs = (case n_eigenpairs of None \<Rightarrow> int (nrows laplacian) | Some k \<Rightarrow> k);
          printed = (if n_eigenpairs \<ge> int (nrows laplacian) then [reduced_message] else []);
          n_eigenpairs = (if n_eigenpairs \<ge> int (nrows laplacian) then int (nrows laplacian)
                          else n_eigenpairs)
      in case eigsh laplacian n_eigenpairs of
           Inl e \<Rightarrow> (printed, Inl e)
         | Inr (evals, evecs) \<Rightarrow>
             (printed,
              Inr (evals,
                   map (\<lambda>row. map (\<lambda>v. v / sqrt (real (length evecs))) (py_take n_eigenpairs row))
                     evecs)))"

text \<open>Column \<open>j\<close> of an array, and the sum of the squares of a vector's entries.\<close>

definition column :: "'a list list \<Rightarrow> nat \<Rightarrow> 'a list" where
  "column M j = map (\<lambda>row. row ! j) M"

definition sum_squares :: "vec \<Rightarrow> real" where
  "sum_squares v = sum_list (map (\<lambda>x. x * x) v)"

text \<open>The product of a matrix with a vector.\<close>

definition mat_vec :: "mat \<Rightarrow> vec \<Rightarrow> vec" where
  "mat_vec M v = map (\<lambda>row. sum_list (map2 (*) row v)) M"

text \<open>
  The cycle on four nodes. Its Laplacian has the eigenvalue 0 with the unit eigenvector
  \<open>(1/2, 1/2, 1/2, 1/2)\<close>, which is what an eigensolver asked for the smallest eigenpair
  returns (up to sign).
\<close>

definition cycle4 :: graph where
  "cycle4 = add_edge 3 0 1 (add_edge 2 3 1 (add_edge 1 2 1 (add_edge 0 1 1 (empty_graph 4))))"

definition cycle4_smallest :: "real eigensolver" where
  "cycle4_smallest L k = Inr ([0], [[1 / 2], [1 / 2], [1 / 2], [1 / 2]])"

text \<open>
  What \<^verbatim>\<open>scipy.sparse.linalg.eigsh(A, k=k, which="SM")\<close> does with its arguments before it
  computes anything:
  \<^verbatim>\<open>
      if A.shape[0] != A.shape[1]:
          raise ValueError('expected square matrix (shape=%s)' % (A.shape,))
      n = A.shape[0]
      if k <= 0:
          raise ValueError("k must be greater than 0.")
      if k >= n:
          if issparse(A):
              raise TypeError("Cannot use scipy.linalg.eigh for sparse A with "
                              "k >= N. Use scipy.linalg.eigh(A.toarray()) or"
                              " reduce k.")
          return eigh(A, ...)
      (ARPACK, the implicitly restarted Lanczos method)
  \<close>
  The two numerical routines, \<^verbatim>\<open>scipy.linalg.eigh\<close> for a dense matrix and ARPACK, are
  parameters. The Laplacians that \<^verbatim>\<open>compute_laplacian\<close> and
  \<^verbatim>\<open>compute_connection_laplacian\<close> return are sparse matrices.
\<close>

definition sparse_linalg_eigsh :: "bool \<Rightarrow> 'a eigensolver \<Rightarrow> 'a eigensolver \<Rightarrow> 'a eigensolver" where
  "sparse_linalg_eigsh issparse eigh arpack A k =
     (if nrows A \<noteq> ncols A then Inl ValueError
      else if k \<le> 0 then Inl ValueError
      else if k \<ge> int (nrows A) then (if issparse then Inl TypeError else eigh A k)
      else arpack A k)"

section \<open>Diffusion\<close>

text \<open>
  Arrays are NumPy arrays, one- or two-dimensional. The operator \<^verbatim>\<open>par\<close> is a sparse
  matrix or the tuple \<^verbatim>\<open>(evals, evecs)\<close>.
\<close>

datatype ndarray = A1 vec | A2 mat

datatype operator = Sparse mat | Pair vec mat

definition mat_mul :: "mat \<Rightarrow> mat \<Rightarrow> mat" where
  "mat_mul A B = map (\<lambda>row. map (\<lambda>j. sum_list (map2 (*) row (column B j))) [0..<ncols B]) A"

text \<open>The operator \<^verbatim>\<open>@\<close> on two-dimensional arrays: the inner dimensions must agree.\<close>

definition matmul :: "mat \<Rightarrow> mat \<Rightarrow> py_error + mat" where
  "matmul A B = (if ncols A = nrows B then Inr (mat_mul A B) else Inl ValueError)"

fun mat_pow :: "mat \<Rightarrow> nat \<Rightarrow> mat" where
  "mat_pow M 0 = identity (length M)"
| "mat_pow M (Suc k) = mat_mul M (mat_pow M k)"

text \<open>
  \<^verbatim>\<open>scipy.linalg.expm\<close>: the matrix exponential \<open>\<Sum>k. M^k / k!\<close> of a square matrix
  (rounding is not modelled); any other shape raises \<^verbatim>\<open>ValueError\<close>.
\<close>

definition expm :: "mat \<Rightarrow> py_error + mat" where
  "expm M =
     (let n = length M
      in if is_array n n M
         then Inr (map (\<lambda>i. map (\<lambda>j. (\<Sum>k. mat_pow M k ! i ! j / fact k)) [0..<n]) [0..<n])
         else Inl ValueError)"

text \<open>
  \<^verbatim>\<open>
  def scalar_diffusion(x, t, method="matrix_exp", par=None):
      if len(x.shape) == 1:
          x = x.unsqueeze(1)
      if method == "matrix_exp":
          par = par.todense()
          return scipy.linalg.expm(-t * par) @ x
      if method == "spectral":
          assert (
              isinstance(par, (list, tuple)) and len(par) == 2
          ), "For spectral method, par must be a tuple of eigenvalues, eigenvectors!"
          evals, evecs = par
          x_spec = np.mm(evecs.T, x)
          diffusion_coefs = np.exp(-evals[...,None] * t)
          x_diffuse_spec = diffusion_coefs * x_spec
          return evecs.mm(x_diffuse_spec)
      raise NotImplementedError
  \<close>
  A one-dimensional NumPy array has no method \<^verbatim>\<open>unsqueeze\<close>, a tuple and \<^verbatim>\<open>None\<close> have no
  method \<^verbatim>\<open>todense\<close>, and the module \<^verbatim>\<open>numpy\<close> has no attribute \<^verbatim>\<open>mm\<close>: each of these
  raises \<^verbatim>\<open>AttributeError\<close>. The spectral branch therefore ends at its first statement
  after the assertion.
\<close>

definition scalar_diffusion ::
  "ndarray \<Rightarrow> real \<Rightarrow> string \<Rightarrow> operator option \<Rightarrow> py_error + mat" where
  "scalar_diffusion x t method par =
     (case x of
        A1 v \<Rightarrow> Inl AttributeError
      | A2 X \<Rightarrow>
          if method = ''matrix_exp'' then
            (case par of
               Some (Sparse M) \<Rightarrow>
                 (case expm (map (map (\<lambda>v. - t * v)) M) of
                    Inl e \<Rightarrow> Inl e
                  | Inr E \<Rightarrow> matmul E X)
             | _ \<Rightarrow> Inl AttributeError)
          else if method = ''spectral'' then
            (case par of
               Some (Pair evals evecs) \<Rightarrow> Inl AttributeError
             | _ \<Rightarrow> Inl AssertionError)
          else Inl NotImplementedError)"






section \<open>Sampling\<close>

text \<open>
  \<^verbatim>\<open>sklearn.metrics.pairwise_distances(x)\<close>: the matrix of Euclidean distances between the
  rows of \<open>x\<close>. Its input check raises \<^verbatim>\<open>ValueError\<close> for an array with no row or no
  column.
\<close>

definition euclidean :: "vec \<Rightarrow> vec \<Rightarrow> real" where
  "euclidean p q = sqrt (sum_list (map2 (\<lambda>a b. (a - b) * (a - b)) p q))"

definition pairwise_distances :: "mat \<Rightarrow> py_error + mat" where
  "pairwise_distances X =
     (if nrows X = 0 \<or> ncols X = 0 then Inl ValueError
      else Inr (map (\<lambda>p. map (\<lambda>q. euclidean p q) X) X))"

text \<open>\<^verbatim>\<open>D.max()\<close>: the largest entry; an empty array raises \<^verbatim>\<open>ValueError\<close>.\<close>

definition array_max :: "real list \<Rightarrow> py_error + real" where
  "array_max xs = (case xs of [] \<Rightarrow> Inl ValueError | x # r \<Rightarrow> Inr (fold max r x))"

text \<open>
  \<^verbatim>\<open>np.argmax(ds)\<close>: the first index of the largest entry; an empty array raises
  \<^verbatim>\<open>ValueError\<close>.
\<close>

fun argmax_from :: "real list \<Rightarrow> nat \<Rightarrow> nat \<Rightarrow> real \<Rightarrow> nat" where
  "argmax_from [] i best v = best"
| "argmax_from (x # xs) i best v =
     (if v < x then argmax_from xs (Suc i) i x else argmax_from xs (Suc i) best v)"

definition argmax :: "real list \<Rightarrow> py_error + nat" where
  "argmax xs = (case xs of [] \<Rightarrow> Inl ValueError | x # r \<Rightarrow> Inr (argmax_from r 1 0 x))"

text \<open>
  The loop of \<^verbatim>\<open>furthest_point_sampling\<close> over the remaining indices \<open>i\<close>, with the state
  \<open>(perm, lambdas, ds)\<close>:
  \<^verbatim>\<open>
      for i in range(1, n):
          idx = np.argmax(ds)
          perm[i] = idx
          lambdas[i] = ds[idx]
          ds = np.minimum(ds, D[idx, :])
          if N is None:
              if lambdas[i] / diam < stop_crit:
                  perm = perm[:i]
                  lambdas = lambdas[:i]
                  break
  \<close>
\<close>

fun fps_loop ::
  "mat \<Rightarrow> real \<Rightarrow> bool \<Rightarrow> real \<Rightarrow> nat list \<Rightarrow> nat list \<times> real list \<times> real list
     \<Rightarrow> py_error + (nat list \<times> real list)" where
  "fps_loop D diam N_is_None stop_crit [] (perm, lambdas, ds) = Inr (perm, lambdas)"
| "fps_loop D diam N_is_None stop_crit (i # rest) (perm, lambdas, ds) =
     (case argmax ds of
        Inl e \<Rightarrow> Inl e
      | Inr idx \<Rightarrow>
          (let perm = perm[i := idx];
               lambdas = lambdas[i := ds ! idx]
           in if \<not> idx < nrows D then Inl IndexError
              else
                (let ds = map2 min ds (D ! idx)
                 in if N_is_None \<and> f_less (true_divide (lambdas ! i) diam) (Fin stop_crit)
                    then Inr (take i perm, take i lambdas)
                    else fps_loop D diam N_is_None stop_crit rest (perm, lambdas, ds))))"

text \<open>
  \<^verbatim>\<open>
  def furthest_point_sampling(x, N=None, stop_crit=0.1, start_idx=0):
      if stop_crit == 0.0:
          return np.arange(len(x)), None
      D = pairwise_distances(x)
      n = D.shape[0] if N is None else N
      diam = D.max()
      start_idx = 5
      perm = np.zeros(n, dtype=np.int32)
      perm[0] = start_idx
      lambdas = np.zeros(n)
      ds = D[start_idx, :]
      (the loop)
      return perm, lambdas
  \<close>
  \<^verbatim>\<open>np.zeros\<close> of a negative size raises \<^verbatim>\<open>ValueError\<close>; an index that is out of range
  raises \<^verbatim>\<open>IndexError\<close>.
\<close>

definition furthest_point_sampling ::
  "mat \<Rightarrow> int option \<Rightarrow> real \<Rightarrow> int \<Rightarrow> py_error + (nat list \<times> real list option)" where
  "furthest_point_sampling x N stop_crit start_idx =
     (if stop_crit = 0 then Inr ([0..<length x], None)
      else
        (case pairwise_distances x of
           Inl e \<Rightarrow> Inl e
         | Inr D \<Rightarrow>
             (let n = (case N of None \<Rightarrow> int (nrows D) | Some k \<Rightarrow> k)
              in case array_max (concat D) of
                   Inl e \<Rightarrow> Inl e
                 | Inr diam \<Rightarrow>
                     (let start_idx = (5::nat)
                      in if n < 0 then Inl ValueError
                         else if n = 0 then Inl IndexError
                         else
                           (let perm = (replicate (nat n) 0)[0 := start_idx];
                                lambdas = replicate (nat n) 0
                            in if \<not> start_idx < nrows D then Inl IndexError
                               else
                                 (case fps_loop D diam (N = None) stop_crit [1..<nat n]
                                         (perm, lambdas, D ! start_idx) of
                                    Inl e \<Rightarrow> Inl e
                                  | Inr (perm, lambdas) \<Rightarrow> Inr (perm, Some lambdas)))))))"

text \<open>Six points on a line, and five.\<close>

definition six_points :: mat where
  "six_points = [[0], [1], [2], [3], [4], [5]]"

definition five_points :: mat where
  "five_points = [[0], [1], [2], [3], [4]]"

section \<open>Graph construction\<close>

text \<open>
  \<^verbatim>\<open>sklearn.neighbors.kneighbors_graph(X, n_neighbors, mode='connectivity',
  include_self=False)\<close>: row \<open>i\<close> has the entry 1 at the \<open>n_neighbors\<close> nearest other points
  (here: ties by index) and 0 elsewhere. It raises \<^verbatim>\<open>ValueError\<close> for an array with no row
  or no column, for \<open>n_neighbors \<le> 0\<close>, and unless \<open>n_neighbors\<close> is smaller than the number
  of points.
\<close>

definition kneighbors_graph :: "mat \<Rightarrow> int \<Rightarrow> py_error + mat" where
  "kneighbors_graph X n_neighbors =
     (if nrows X = 0 \<or> ncols X = 0 then Inl ValueError
      else if n_neighbors \<le> 0 then Inl ValueError
      else if int (nrows X) \<le> n_neighbors then Inl ValueError
      else Inr (map (\<lambda>i.
                  (let nearest = take (nat n_neighbors)
                         (sort_key (\<lambda>j. euclidean (X ! i) (X ! j))
                            (filter (\<lambda>j. j \<noteq> i) [0..<nrows X]))
                   in map (\<lambda>j. if j \<in> set nearest then 1 else 0) [0..<nrows X]))
                [0..<nrows X]))"

text \<open>\<^verbatim>\<open>A += sparse.eye(A.shape[0])\<close>.\<close>

definition add_eye :: "mat \<Rightarrow> mat" where
  "add_eye A = map (\<lambda>i. map (\<lambda>j. A ! i ! j + (if i = j then 1 else 0)) [0..<length (A ! i)])
                 [0..<length A]"

text \<open>
  \<^verbatim>\<open>nx.from_scipy_sparse_array(A)\<close> and \<^verbatim>\<open>nx.from_numpy_array(A)\<close>: the nodes are
  \<open>0, \<dots>, n - 1\<close>, and every nonzero entry \<open>(i, j)\<close> adds the edge \<open>i - j\<close> with the entry
  as its weight, in row-major order, a later entry replacing the weight of an earlier one.
  A matrix that is not square raises \<^verbatim>\<open>NetworkXError\<close>.
\<close>

definition from_array :: "mat \<Rightarrow> py_error + graph" where
  "from_array A =
     (let n = nrows A
      in if \<not> is_array n n A then Inl NetworkXError
         else Inr \<lparr> nodes = [0..<n],
                    adj = (\<lambda>u v. if u < n \<and> v < n then
                                     (if A ! max u v ! min u v \<noteq> 0 then Some (A ! max u v ! min u v)
                                      else if A ! min u v ! max u v \<noteq> 0
                                        then Some (A ! min u v ! max u v)
                                      else None)
                                   else None),
                    pos = (\<lambda>u. None) \<rparr>)"

text \<open>
  \<^verbatim>\<open>
  def manifold_graph(X, typ = 'knn', n_neighbors=5):
      if typ == 'knn':
          A = kneighbors_graph(X, n_neighbors, mode='connectivity', metric='minkowski', p=2,
                               metric_params=None, include_self=False, n_jobs=None)
          A += sparse.eye(A.shape[0])
          G = nx.from_scipy_sparse_array(A)
      elif typ == 'affinity':
          pairwise_distances_sphere = pairwise_distances(X)
          sigma = 0.1
          A = np.exp(-pairwise_distances_sphere ** 2 / (2 * sigma ** 2))
          G = nx.from_numpy_array(A)
      node_attribute = {i: X[i] for i in G.nodes}
      nx.set_node_attributes(G, node_attribute, "pos")
      return G
  \<close>
  For any other \<^verbatim>\<open>typ\<close> the variable \<^verbatim>\<open>G\<close> is unbound where the node attributes are
  built.
\<close>

definition manifold_graph :: "mat \<Rightarrow> string \<Rightarrow> int \<Rightarrow> py_error + graph" where
  "manifold_graph X typ n_neighbors =
     (let G =
        (if typ = ''knn'' then
           (case kneighbors_graph X n_neighbors of
              Inl e \<Rightarrow> Inl e
            | Inr A \<Rightarrow> from_array (add_eye A))
         else if typ = ''affinity'' then
           (case pairwise_distances X of
              Inl e \<Rightarrow> Inl e
            | Inr D \<Rightarrow>
                (let sigma = 1 / 10
                 in from_array (map (map (\<lambda>d. exp (- (d * d) / (2 * (sigma * sigma))))) D)))
         else Inl UnboundLocalError)
      in case G of
           Inl e \<Rightarrow> Inl e
         | Inr G \<Rightarrow>
             if list_all (\<lambda>i. i < length X) (nodes G)
             then Inr (G\<lparr> pos := (\<lambda>i. if i \<in> set (nodes G) then Some (X ! i) else pos G i) \<rparr>)
             else Inl IndexError)"

section \<open>The data model of the transport matrices\<close>

text \<open>
  The invariant of the connection data \<open>R\<close> over a graph, as the specification states it:
  \<open>R\<close> is an \<open>(n d) \<times> (n d)\<close> matrix of \<open>d \<times> d\<close> blocks, its diagonal blocks are the
  identity, and an off-diagonal block \<open>(i, j)\<close> is nonzero exactly when \<open>i\<close> and \<open>j\<close> are
  joined by an edge.
\<close>

definition transport_invariant :: "graph \<Rightarrow> nat \<Rightarrow> mat \<Rightarrow> bool" where
  "transport_invariant G d R =
     (is_array (length (nodes G) * d) (length (nodes G) * d) R
      \<and> list_all (\<lambda>i.
            block R d i i = identity d
            \<and> list_all (\<lambda>j. i = j
                  \<or> (block R d i j \<noteq> replicate d (replicate d 0))
                       = (adj G (nodes G ! i) (nodes G ! j) \<noteq> None))
                [0..<length (nodes G)])
          [0..<length (nodes G)])"

text \<open>
  A graph on four nodes with the edge \<open>0 - 1\<close> of weight 1, the edge \<open>1 - 3\<close> of weight 0
  and the isolated node \<open>2\<close>, and transport matrices over it in dimension 2: identity blocks
  on the diagonal and at the two edges, zero blocks elsewhere.
\<close>

definition two_edges_and_isolated :: graph where
  "two_edges_and_isolated = add_edge 1 3 0 (add_edge 0 1 1 (empty_graph 4))"

definition transport_two_edges :: mat where
  "transport_two_edges =
     [[1, 0, 1, 0, 0, 0, 0, 0],
      [0, 1, 0, 1, 0, 0, 0, 0],
      [1, 0, 1, 0, 0, 0, 1, 0],
      [0, 1, 0, 1, 0, 0, 0, 1],
      [0, 0, 0, 0, 1, 0, 0, 0],
      [0, 0, 0, 0, 0, 1, 0, 0],
      [0, 0, 1, 0, 0, 0, 1, 0],
      [0, 0, 0, 1, 0, 0, 0, 1]]"

section \<open>Properties of the scalar Laplacian\<close>

lemma length_laplacian_matrix: "length (laplacian_matrix G) = length (nodes G)"
  by (simp add: laplacian_matrix_def adjacency_matrix_def Let_def)

lemma laplacian_matrix_nth:
  assumes "r < length (nodes G)" "c < length (nodes G)"
  shows "laplacian_matrix G ! r ! c =
           (if r = c then sum_list (map (weight G (nodes G ! r)) (nodes G)) else 0)
           - weight G (nodes G ! r) (nodes G ! c)"
  using assms by (simp add: laplacian_matrix_def adjacency_matrix_def Let_def)

lemma sum_list_delta:
  fixes a :: real
  assumes "r < n"
  shows "sum_list (map (\<lambda>c. if r = c then a else 0) [0..<n]) = a"
proof -
  have "sum_list (map (\<lambda>c. if r = c then a else 0) [0..<n]) =
          (\<Sum>c\<in>{0..<n}. if r = c then a else 0)"
    by (simp add: interv_sum_list_conv_sum_set_nat)
  also have "\<dots> = a"
    using assms by simp
  finally show ?thesis .
qed

lemma sum_list_map_nth_upt:
  "sum_list (map (\<lambda>c. f (xs ! c)) [0..<length xs]) = sum_list (map f xs)"
proof -
  have "map (\<lambda>c. f (xs ! c)) [0..<length xs] = map f (map (\<lambda>c. xs ! c) [0..<length xs])"
    by simp
  also have "\<dots> = map f xs"
    by (simp only: map_nth)
  finally show ?thesis by simp
qed

lemma laplacian_matrix_row:
  assumes "r < length (nodes G)"
  shows "laplacian_matrix G ! r =
    map (\<lambda>c. (if r = c then sum_list (map (weight G (nodes G ! r)) (nodes G)) else 0)
            - weight G (nodes G ! r) (nodes G ! c)) [0..<length (nodes G)]"
  using assms by (simp add: laplacian_matrix_def adjacency_matrix_def Let_def)

text \<open>Without normalization the result is \<open>D - A\<close>, and each of its rows sums to 0.\<close>

lemma compute_laplacian_unnormalized:
  assumes "nodes G \<noteq> []"
  shows "compute_laplacian G None = Inr (map (map Fin) (laplacian_matrix G))"
  using assms by (simp add: compute_laplacian_def)

lemma laplacian_matrix_row_sum:
  assumes "r < length (nodes G)"
  shows "sum_list (laplacian_matrix G ! r) = 0"
  unfolding laplacian_matrix_row[OF assms]
  by (simp add: sum_list_subtractf sum_list_delta[OF assms] sum_list_map_nth_upt)

lemma list_all_is_finite_Fin: "list_all is_finite (map Fin xs)"
  by (induction xs) (simp_all add: is_finite_def)

lemma row_sum_Fin: "row_sum (map Fin xs) = Some (sum_list xs)"
proof -
  have "sum_list (map (\<lambda>v. case v of Fin a \<Rightarrow> a | _ \<Rightarrow> 0) (map Fin xs)) = sum_list xs"
    by (induction xs) simp_all
  then show ?thesis
    by (simp add: row_sum_def list_all_is_finite_Fin)
qed

lemma compute_laplacian_unnormalized_row_sum:
  assumes "r < length (nodes G)"
  shows "\<exists>L. compute_laplacian G None = Inr L \<and> row_sum (L ! r) = Some 0"
proof -
  have "nodes G \<noteq> []"
    using assms by auto
  then show ?thesis
    using assms
    by (simp add: compute_laplacian_unnormalized length_laplacian_matrix row_sum_Fin
        laplacian_matrix_row_sum)
qed

text \<open>
  With \<^verbatim>\<open>"rw"\<close>, a nonzero entry \<open>(r, c)\<close> of the Laplacian is multiplied by the reciprocal of
  the degree of node \<open>c\<close>, the node of its column.
\<close>

lemma compute_laplacian_rw_nth:
  assumes "r < length (nodes G)" "c < length (nodes G)"
  shows "\<exists>L. compute_laplacian G (Some ''rw'') = Inr L
           \<and> L ! r ! c =
               (if laplacian_matrix G ! r ! c = 0 then Fin 0
                else f_mul (Fin (laplacian_matrix G ! r ! c))
                       (true_divide 1 (real (degree G (nodes G ! c)))))"
proof -
  have "nodes G \<noteq> []"
    using assms by auto
  then show ?thesis
    using assms
    by (simp add: compute_laplacian_def Let_def length_laplacian_matrix laplacian_matrix_row)
qed

text \<open>
  C2. On the path \<open>0 - 1 - 2\<close> the \<^verbatim>\<open>"rw"\<close> normalization of \<^verbatim>\<open>compute_laplacian\<close> divides
  column \<open>c\<close> by the degree of node \<open>c\<close>: the result is not the Laplacian with each row
  divided by its node's degree, and its rows sum to \<open>1/2\<close>, \<open>-1\<close> and \<open>1/2\<close>, not to 0.
\<close>

theorem compute_laplacian_rw_path3:
  "compute_laplacian path3 (Some ''rw'') =
     Inr [[Fin 1, Fin (- (1 / 2)), Fin 0],
          [Fin (- 1), Fin 1, Fin (- 1)],
          [Fin 0, Fin (- (1 / 2)), Fin 1]]
   \<and> rows_divided_by_degree path3 =
     [[Fin 1, Fin (- 1), Fin 0],
      [Fin (- (1 / 2)), Fin 1, Fin (- (1 / 2))],
      [Fin 0, Fin (- 1), Fin 1]]
   \<and> (case compute_laplacian path3 (Some ''rw'') of
         Inl e \<Rightarrow> False
       | Inr L \<Rightarrow> map row_sum L = [Some (1 / 2), Some (- 1), Some (1 / 2)])"
  by (simp add: compute_laplacian_def rows_divided_by_degree_def path3_def laplacian_matrix_def
      adjacency_matrix_def weight_def degree_def add_edge_def empty_graph_def true_divide_def
      row_sum_def is_finite_def Let_def upt_rec)

section \<open>Properties of the connection Laplacian\<close>

lemma ncols_is_array: "is_array r c M \<Longrightarrow> 0 < r \<Longrightarrow> ncols M = c"
  by (cases M) (auto simp: is_array_def ncols_def)

lemma ncols_is_array0: "is_array 0 c M \<Longrightarrow> ncols M = 0"
  by (cases M) (auto simp: is_array_def ncols_def)

lemma is_array_nth: "is_array r c M \<Longrightarrow> i < r \<Longrightarrow> length (M ! i) = c"
  by (auto simp: is_array_def list_all_length)

lemma is_array_laplacian: "is_array (length (nodes G)) (length (nodes G)) (laplacian_matrix G)"
  by (simp add: is_array_def list_all_length laplacian_matrix_def adjacency_matrix_def Let_def)

lemma is_array_Fin_laplacian:
  "is_array (length (nodes G)) (length (nodes G)) (map (map Fin) (laplacian_matrix G))"
  using is_array_laplacian[of G]
  by (simp add: is_array_def list_all_length)

lemma kron_ones_nth:
  assumes "is_array n n L" "0 < n" "r < n * d" "c < n * d"
  shows "kron_ones L d ! r ! c = f_mul (L ! (r div d) ! (c div d)) (Fin 1)"
proof -
  have "ncols L = n" "nrows L = n"
    using assms by (simp_all add: ncols_is_array nrows_def is_array_def)
  then show ?thesis
    using assms by (simp add: kron_ones_def)
qed

lemma is_array_kron_ones:
  assumes "is_array n n L" "0 < n"
  shows "is_array (n * d) (n * d) (kron_ones L d)"
proof -
  have "ncols L = n" "nrows L = n"
    using assms by (simp_all add: ncols_is_array nrows_def is_array_def)
  then show ?thesis
    by (simp add: kron_ones_def is_array_def list_all_length)
qed

lemma ncols_square: "is_array m m M \<Longrightarrow> ncols M = m"
  by (cases "m = 0") (auto simp: ncols_is_array ncols_is_array0)

lemma multiply_same_shape:
  assumes "is_array m m A" "is_array m m R"
  shows "\<exists>Lc. multiply A R = Inr Lc \<and> is_array m m Lc \<and>
           (\<forall>r<m. \<forall>c<m. Lc ! r ! c = f_mul (A ! r ! c) (Fin (R ! r ! c)))"
proof -
  have "ncols A = m" "ncols R = m" "nrows A = m" "nrows R = m"
    using assms by (simp_all add: ncols_square nrows_def is_array_def)
  then show ?thesis
    by (auto simp: multiply_def broadcast_length_def is_array_def list_all_length)
qed

lemma div_block: "a < d \<Longrightarrow> (i * d + a) div d = (i::nat)"
  by simp

lemma block_index_less: "i < n \<Longrightarrow> a < d \<Longrightarrow> i * d + a < n * (d::nat)"
proof -
  assume "i < n" "a < d"
  then have "i * d + a < i * d + d" by simp
  also have "\<dots> = Suc i * d" by simp
  also have "\<dots> \<le> n * d" using \<open>i < n\<close> by (intro mult_le_mono1) simp
  finally show ?thesis .
qed

lemma connection_product:
  assumes n: "0 < length (nodes G)"
    and R: "is_array (length (nodes G) * d) (length (nodes G) * d) R"
  shows "\<exists>Lc. compute_laplacian G None = Inr (map (map Fin) (laplacian_matrix G))
          \<and> nrows R div length (nodes G) = d
          \<and> multiply (kron_ones (map (map Fin) (laplacian_matrix G)) d) R = Inr Lc
          \<and> is_array (length (nodes G) * d) (length (nodes G) * d) Lc
          \<and> (\<forall>i<length (nodes G). \<forall>j<length (nodes G). \<forall>a<d. \<forall>b<d.
               Lc ! (i * d + a) ! (j * d + b)
                 = Fin (laplacian_matrix G ! i ! j * R ! (i * d + a) ! (j * d + b)))"
proof -
  let ?n = "length (nodes G)"
  let ?L = "map (map Fin) (laplacian_matrix G)"
  have cl: "compute_laplacian G None = Inr ?L"
    using n by (simp add: compute_laplacian_unnormalized)
  have dm: "nrows R div ?n = d"
    using n R by (simp add: nrows_def is_array_def)
  have K: "is_array (?n * d) (?n * d) (kron_ones ?L d)"
    by (rule is_array_kron_ones[OF is_array_Fin_laplacian n])
  obtain Lc where Lc: "multiply (kron_ones ?L d) R = Inr Lc"
    and arr: "is_array (?n * d) (?n * d) Lc"
    and ent: "\<forall>r<?n * d. \<forall>c<?n * d. Lc ! r ! c = f_mul (kron_ones ?L d ! r ! c) (Fin (R ! r ! c))"
    using multiply_same_shape[OF K R] by blast
  have "Lc ! (i * d + a) ! (j * d + b)
          = Fin (laplacian_matrix G ! i ! j * R ! (i * d + a) ! (j * d + b))"
    if "i < ?n" "j < ?n" "a < d" "b < d" for i j a b
  proof -
    have r: "i * d + a < ?n * d" and c: "j * d + b < ?n * d"
      using that by (simp_all add: block_index_less)
    have "kron_ones ?L d ! (i * d + a) ! (j * d + b) = f_mul (?L ! i ! j) (Fin 1)"
      using kron_ones_nth[OF is_array_Fin_laplacian n r c] that by simp
    also have "?L ! i ! j = Fin (laplacian_matrix G ! i ! j)"
      using that is_array_nth[OF is_array_laplacian, of i G]
      by (simp add: length_laplacian_matrix)
    finally show ?thesis
      using ent r c by simp
  qed
  with cl dm Lc arr show ?thesis by blast
qed

lemma connection_entry:
  assumes n: "0 < length (nodes G)"
    and R: "is_array (length (nodes G) * d) (length (nodes G) * d) R"
  shows "\<exists>Lc. compute_connection_laplacian G R None = Inr Lc
          \<and> is_array (length (nodes G) * d) (length (nodes G) * d) Lc
          \<and> (\<forall>i<length (nodes G). \<forall>j<length (nodes G). \<forall>a<d. \<forall>b<d.
               Lc ! (i * d + a) ! (j * d + b)
                 = Fin (laplacian_matrix G ! i ! j * R ! (i * d + a) ! (j * d + b)))"
proof -
  obtain Lc where cl: "compute_laplacian G None = Inr (map (map Fin) (laplacian_matrix G))"
    and dm: "nrows R div length (nodes G) = d"
    and Lc: "multiply (kron_ones (map (map Fin) (laplacian_matrix G)) d) R = Inr Lc"
    and rest: "is_array (length (nodes G) * d) (length (nodes G) * d) Lc"
      "\<forall>i<length (nodes G). \<forall>j<length (nodes G). \<forall>a<d. \<forall>b<d.
               Lc ! (i * d + a) ! (j * d + b)
                 = Fin (laplacian_matrix G ! i ! j * R ! (i * d + a) ! (j * d + b))"
    using connection_product[OF n R] by blast
  have "compute_connection_laplacian G R None = Inr Lc"
    using n cl dm Lc by (simp add: compute_connection_laplacian_def Let_def)
  with rest show ?thesis by blast
qed

lemma laplacian_offdiag:
  assumes "i < length (nodes G)" "j < length (nodes G)" "i \<noteq> j"
  shows "laplacian_matrix G ! i ! j = - weight G (nodes G ! i) (nodes G ! j)"
  using assms by (simp add: laplacian_matrix_nth)

lemma sum_list_split_at:
  fixes f :: "nat \<Rightarrow> real"
  assumes "r < n"
  shows "sum_list (map f [0..<n]) = f r + sum_list (map (\<lambda>c. if r = c then 0 else f c) [0..<n])"
proof -
  have "map f [0..<n] = map (\<lambda>c. (if r = c then f r else 0) + (if r = c then 0 else f c)) [0..<n]"
    by (rule map_cong) auto
  then have "sum_list (map f [0..<n]) =
      sum_list (map (\<lambda>c. if r = c then f r else 0) [0..<n])
      + sum_list (map (\<lambda>c. if r = c then 0 else f c) [0..<n])"
    by (simp only: sum_list_addf)
  then show ?thesis by (simp add: sum_list_delta[OF assms])
qed

lemma laplacian_diag:
  assumes "i < length (nodes G)"
  shows "laplacian_matrix G ! i ! i = weighted_degree G i"
proof -
  have "sum_list (map (weight G (nodes G ! i)) (nodes G))
      = sum_list (map (\<lambda>c. weight G (nodes G ! i) (nodes G ! c)) [0..<length (nodes G)])"
    by (simp add: sum_list_map_nth_upt)
  also have "\<dots> = weight G (nodes G ! i) (nodes G ! i) + weighted_degree G i"
    unfolding weighted_degree_def by (rule sum_list_split_at[OF assms])
  finally show ?thesis using assms by (simp add: laplacian_matrix_nth)
qed

lemma weighted_degree_isolated:
  assumes "\<forall>v\<in>set (nodes G). adj G (nodes G ! i) v = None"
  shows "weighted_degree G i = 0"
proof -
  have "map (\<lambda>c. if i = c then 0 else weight G (nodes G ! i) (nodes G ! c)) [0..<length (nodes G)]
      = map (\<lambda>c. 0) [0..<length (nodes G)]"
    using assms by (intro map_cong) (auto simp: weight_def)
  then have "weighted_degree G i = sum_list (map (\<lambda>c. 0::real) [0..<length (nodes G)])"
    unfolding weighted_degree_def by (rule arg_cong)
  then show ?thesis by simp
qed

section \<open>Properties of the spectrum\<close>

lemma sum_squares_scaled:
  "sum_squares (map (\<lambda>x. x / c) v) = sum_squares v / (c * c)"
  by (induction v) (simp_all add: sum_squares_def add_divide_distrib)

lemma column_scaled:
  assumes "\<forall>row\<in>set M. j < length (f row)"
  shows "column (map (\<lambda>row. map g (f row)) M) j = map g (column (map f M) j)"
  using assms by (simp add: column_def)

lemma py_take_nth: "0 \<le> k \<Longrightarrow> j < nat k \<Longrightarrow> j < length row \<Longrightarrow> py_take k row ! j = row ! j"
  by (simp add: py_take_def)

lemma py_take_length: "0 \<le> k \<Longrightarrow> length (py_take k row) = min (nat k) (length row)"
  by (simp add: py_take_def)

text \<open>
  C3 (as amended). When the eigensolver returns an array with at least one row whose column
  \<open>j\<close> has unit Euclidean norm, \<^verbatim>\<open>compute_spectrum\<close> returns that column divided once by
  the square root of the number of rows \<open>n\<close>: the sum over the vertices of the squared
  entries of the returned column is \<open>1 / n\<close>.
\<close>

theorem compute_spectrum_column_norm:
  assumes solver: "eigsh L q = Inr (evals, evecs)"
    and q: "q = (case k of None \<Rightarrow> int (nrows L)
                 | Some k' \<Rightarrow> if k' \<ge> int (nrows L) then int (nrows L) else k')"
    and j: "0 \<le> q" "j < nat q" "\<forall>row\<in>set evecs. j < length row"
    and ne: "evecs \<noteq> []"
    and unit: "sum_squares (column evecs j) = 1"
  shows "\<exists>printed evals' evecs'.
           compute_spectrum eigsh L k = (printed, Inr (evals', evecs'))
           \<and> evals' = evals
           \<and> length evecs' = length evecs
           \<and> column evecs' j = map (\<lambda>v. v / sqrt (real (length evecs))) (column evecs j)
           \<and> sum_squares (column evecs' j) = 1 / real (length evecs)"
proof -
  let ?s = "sqrt (real (length evecs))"
  let ?E = "map (\<lambda>row. map (\<lambda>v. v / ?s) (py_take q row)) evecs"
  have res: "snd (compute_spectrum eigsh L k) = Inr (evals, ?E)"
    using solver q by (auto simp: compute_spectrum_def Let_def split: option.splits)
  have col: "column ?E j = map (\<lambda>v. v / ?s) (column evecs j)"
    using j by (simp add: column_def py_take_nth py_take_length)
  have "sum_squares (column ?E j) = sum_squares (column evecs j) / (?s * ?s)"
    unfolding col by (rule sum_squares_scaled)
  also have "\<dots> = 1 / real (length evecs)"
    using unit by simp
  finally have ss: "sum_squares (column ?E j) = 1 / real (length evecs)" .
  obtain printed r where pr: "compute_spectrum eigsh L k = (printed, r)"
    by (cases "compute_spectrum eigsh L k")
  with res have "r = Inr (evals, ?E)" by simp
  with pr col ss show ?thesis by simp
qed

lemma laplacian_matrix_cycle4:
  "laplacian_matrix cycle4 = [[2, - 1, 0, - 1], [- 1, 2, - 1, 0], [0, - 1, 2, - 1], [- 1, 0, - 1, 2]]"
  by (simp add: cycle4_def laplacian_matrix_def adjacency_matrix_def weight_def add_edge_def
      empty_graph_def Let_def upt_rec)

text \<open>
  C3 as stated fails on the cycle with four nodes: the eigensolver's unit eigenvector
  \<open>(1/2, 1/2, 1/2, 1/2)\<close> for the eigenvalue 0 is returned as \<open>(1/4, 1/4, 1/4, 1/4)\<close>, whose
  squared entries sum to \<open>1/4\<close>, not to 1.
\<close>

theorem compute_spectrum_norm_counterexample:
  "mat_vec (laplacian_matrix cycle4) [1 / 2, 1 / 2, 1 / 2, 1 / 2] = [0, 0, 0, 0]
   \<and> sum_squares [1 / 2, 1 / 2, 1 / 2, 1 / 2] = 1
   \<and> compute_spectrum cycle4_smallest (laplacian_matrix cycle4) (Some 1)
       = ([], Inr ([0], [[1 / 4], [1 / 4], [1 / 4], [1 / 4]]))
   \<and> sum_squares (column [[1 / 4], [1 / 4], [1 / 4], [1 / 4]] 0) = 1 / 4
   \<and> sum_squares (column [[1 / 4], [1 / 4], [1 / 4], [1 / 4]] 0) \<noteq> 1"
  by (simp add: laplacian_matrix_cycle4 mat_vec_def sum_squares_def column_def compute_spectrum_def cycle4_smallest_def
      nrows_def py_take_def Let_def)

text \<open>
  The theorem at the cycle with four nodes and one requested eigenpair.
\<close>

theorem compute_spectrum_column_norm_witness:
  "cycle4_smallest (laplacian_matrix cycle4) 1 = Inr ([0], [[1 / 2], [1 / 2], [1 / 2], [1 / 2]])
   \<and> (\<exists>printed evals' evecs'.
         compute_spectrum cycle4_smallest (laplacian_matrix cycle4) (Some 1)
           = (printed, Inr (evals', evecs'))
         \<and> sum_squares (column evecs' 0) = 1 / 4)"
proof -
  let ?L = "laplacian_matrix cycle4"
  let ?E = "[[1 / 2], [1 / 2], [1 / 2], [1 / 2 :: real]]"
  have s: "cycle4_smallest ?L 1 = Inr ([0], ?E)"
    by (simp add: cycle4_smallest_def)
  have q: "(1::int) = (case Some 1 of None \<Rightarrow> int (nrows ?L)
                 | Some k' \<Rightarrow> if k' \<ge> int (nrows ?L) then int (nrows ?L) else k')"
    by (simp add: laplacian_matrix_cycle4 nrows_def)
  have j: "(0::int) \<le> 1" "0 < nat 1" "\<forall>row\<in>set ?E. 0 < length row"
    by simp_all
  have ne: "?E \<noteq> []" by simp
  have unit: "sum_squares (column ?E 0) = 1"
    by (simp add: sum_squares_def column_def)
  from compute_spectrum_column_norm[of cycle4_smallest ?L 1 "[0]" ?E "Some 1" 0, OF s q j ne unit] s
  show ?thesis
    by auto
qed

text \<open>
  For a request \<open>0 < k < m\<close> on a square matrix of order \<open>m\<close> nothing is printed and the
  eigenpairs are those of ARPACK.
\<close>

lemma compute_spectrum_in_range:
  assumes "nrows L = ncols L" and "0 < k" and "k < int (nrows L)"
  shows "compute_spectrum (sparse_linalg_eigsh issparse eigh arpack) L (Some k) = compute_spectrum arpack L (Some k)"
    and "fst (compute_spectrum (sparse_linalg_eigsh issparse eigh arpack) L (Some k)) = []"
  using assms by (simp_all add: compute_spectrum_def sparse_linalg_eigsh_def Let_def split: sum.splits prod.splits)

text \<open>
  On a dense square matrix a clipped request is answered by \<^verbatim>\<open>scipy.linalg.eigh\<close>.
\<close>

lemma compute_spectrum_dense_clipped:
  assumes "k = None \<or> (\<exists>k'. k = Some k' \<and> int (nrows L) \<le> k')"
    and "nrows L = ncols L" and "0 < nrows L"
  shows "compute_spectrum (sparse_linalg_eigsh False eigh arpack) L k = compute_spectrum eigh L k"
  using assms by (auto simp: compute_spectrum_def sparse_linalg_eigsh_def Let_def split: sum.splits prod.splits)

text \<open>
  C6. When \<open>k\<close> is unspecified or at least the order \<open>m\<close> of a sparse Laplacian,
  \<^verbatim>\<open>compute_spectrum\<close> prints the notice and calls \<^verbatim>\<open>eigsh\<close> with \<open>k = m\<close>, which raises:
  the call returns no eigenvalues and no eigenvectors. On a square matrix of order at least
  one the exception is the \<^verbatim>\<open>TypeError\<close> of \<^verbatim>\<open>eigsh\<close> for a sparse matrix with \<open>k \<ge> m\<close>.
\<close>

theorem compute_spectrum_sparse_raises:
  assumes k: "k = None \<or> (\<exists>k'. k = Some k' \<and> int (nrows L) \<le> k')"
  shows "\<exists>e. compute_spectrum (sparse_linalg_eigsh True eigh arpack) L k = ([reduced_message], Inl e)
            \<and> (nrows L = ncols L \<and> 0 < nrows L \<longrightarrow> e = TypeError)"
proof -
  let ?m = "int (nrows L)"
  have eff: "(case k of None \<Rightarrow> ?m | Some k' \<Rightarrow> k') \<ge> ?m"
    using k by (auto split: option.splits)
  have unfold: "compute_spectrum (sparse_linalg_eigsh True eigh arpack) L k =
      (case sparse_linalg_eigsh True eigh arpack L ?m of
         Inl e \<Rightarrow> ([reduced_message], Inl e)
       | Inr (evals, evecs) \<Rightarrow>
           ([reduced_message],
            Inr (evals, map (\<lambda>row. map (\<lambda>v. v / sqrt (real (length evecs))) (py_take ?m row)) evecs)))"
    using eff by (simp add: compute_spectrum_def Let_def)
  have call: "sparse_linalg_eigsh True eigh arpack L ?m
      = Inl (if nrows L = ncols L \<and> 0 < nrows L then TypeError else ValueError)"
    by (simp add: sparse_linalg_eigsh_def)
  show ?thesis
    unfolding unfold call by simp
qed

text \<open>
  The theorem at the Laplacian of the cycle on four nodes, with \<open>k\<close> unspecified.
\<close>

theorem compute_spectrum_sparse_raises_witness:
  "(None = (None :: int option)
      \<or> (\<exists>k'. None = Some k' \<and> int (nrows (laplacian_matrix cycle4)) \<le> k'))
   \<and> nrows (laplacian_matrix cycle4) = 4 \<and> ncols (laplacian_matrix cycle4) = 4
   \<and> compute_spectrum (sparse_linalg_eigsh True cycle4_smallest cycle4_smallest) (laplacian_matrix cycle4) None
       = ([reduced_message], Inl TypeError)"
proof -
  let ?L = "laplacian_matrix cycle4"
  have r: "nrows ?L = 4" and c: "ncols ?L = 4"
    by (simp_all add: laplacian_matrix_cycle4 nrows_def ncols_def)
  have k: "None = (None :: int option) \<or> (\<exists>k'. None = Some k' \<and> int (nrows ?L) \<le> k')"
    by simp
  from compute_spectrum_sparse_raises[of None ?L cycle4_smallest cycle4_smallest, OF k]
  obtain e where e: "compute_spectrum (sparse_linalg_eigsh True cycle4_smallest cycle4_smallest) ?L None
                       = ([reduced_message], Inl e)"
    and t: "nrows ?L = ncols ?L \<and> 0 < nrows ?L \<longrightarrow> e = TypeError"
    by blast
  from t r c have "e = TypeError" by simp
  with e r c k show ?thesis by simp
qed

section \<open>Properties of diffusion\<close>


lemma is_array_identity: "is_array n n (identity n)"
  by (simp add: is_array_def identity_def list_all_length)









text \<open>
  C4. With the method \<^verbatim>\<open>"spectral"\<close> and an \<^verbatim>\<open>(evals, evecs)\<close> pair, \<^verbatim>\<open>scalar_diffusion\<close>
  raises \<^verbatim>\<open>AttributeError\<close> for every field and every time, at \<^verbatim>\<open>np.mm\<close> or before it at
  \<^verbatim>\<open>x.unsqueeze\<close>. In particular at \<open>t = 0\<close>, with the field \<open>(3, 5)\<close> and the
  eigenvectors the \<open>2 \<times> 2\<close> identity, it does not return the field.
\<close>

theorem scalar_diffusion_spectral_raises:
  "scalar_diffusion x t ''spectral'' (Some (Pair evals evecs)) = Inl AttributeError
   \<and> scalar_diffusion (A2 [[3], [5]]) 0 ''spectral'' (Some (Pair [0, 2] [[1, 0], [0, 1]]))
       = Inl AttributeError
   \<and> scalar_diffusion (A2 [[3], [5]]) 0 ''spectral'' (Some (Pair [0, 2] [[1, 0], [0, 1]]))
       \<noteq> Inr [[3], [5]]"
  by (cases x) (simp_all add: scalar_diffusion_def)








section \<open>Properties of furthest-point sampling\<close>

lemma euclidean_line: "euclidean [a] [b] = \<bar>a - b\<bar>"
  by (simp add: euclidean_def)

text \<open>
  The loop writes at indices from 1 on and truncates to at least one entry, so the first
  entry of \<open>perm\<close> stays as it is.
\<close>

lemma fps_loop_first:
  assumes "\<forall>i\<in>set is. 1 \<le> i" "perm \<noteq> []"
    "fps_loop D diam b sc is (perm, lambdas, ds) = Inr (p, l)"
  shows "p \<noteq> [] \<and> hd p = hd perm"
  using assms
proof (induction "is" arbitrary: perm lambdas ds)
  case Nil
  then show ?case by simp
next
  case (Cons i rest)
  from Cons.prems(1) have i: "1 \<le> i" and rest: "\<forall>i\<in>set rest. 1 \<le> i"
    by simp_all
  obtain idx where idx: "argmax ds = Inr idx"
    using Cons.prems(3) by (cases "argmax ds") simp_all
  let ?perm = "perm[i := idx]"
  let ?lam = "lambdas[i := ds ! idx]"
  have ne: "?perm \<noteq> []"
    using Cons.prems(2) by simp
  have hd: "hd ?perm = hd perm"
    using Cons.prems(2) i by (cases perm) (simp_all split: nat.splits)
  show ?case
  proof (cases "b \<and> f_less (true_divide (?lam ! i) diam) (Fin sc)")
    case True
    then have "p = take i ?perm"
      using Cons.prems(3) idx by (simp add: Let_def split: if_splits)
    then show ?thesis
      using ne hd i by (cases ?perm) (simp_all add: take_Cons split: nat.splits)
  next
    case False
    then have "fps_loop D diam b sc rest (?perm, ?lam, map2 min ds (D ! idx)) = Inr (p, l)"
      using Cons.prems(3) idx by (simp add: Let_def split: if_splits)
    from Cons.IH[OF rest ne this] hd show ?thesis
      by simp
  qed
qed

text \<open>
  C8. With \<open>stop_crit \<noteq> 0\<close>, \<^verbatim>\<open>furthest_point_sampling\<close> gives the same result (the same
  index and distance sequences, or the same exception) for any two values of the argument
  \<^verbatim>\<open>start_idx\<close>, and the first selected index of a returned sample is the constant 5.
\<close>

theorem fps_start_idx_fixed:
  assumes "stop_crit \<noteq> 0"
  shows "furthest_point_sampling x N stop_crit s1 = furthest_point_sampling x N stop_crit s2
       \<and> (\<forall>perm lambdas. furthest_point_sampling x N stop_crit s1 = Inr (perm, lambdas)
             \<longrightarrow> perm \<noteq> [] \<and> hd perm = 5 \<and> lambdas \<noteq> None)"
proof -
  have same: "furthest_point_sampling x N stop_crit s1 = furthest_point_sampling x N stop_crit s2"
    by (simp add: furthest_point_sampling_def)
  have first: "perm \<noteq> [] \<and> hd perm = 5 \<and> lambdas \<noteq> None"
    if r: "furthest_point_sampling x N stop_crit s1 = Inr (perm, lambdas)" for perm lambdas
  proof -
    obtain D where D: "pairwise_distances x = Inr D"
      using r assms by (cases "pairwise_distances x") (simp_all add: furthest_point_sampling_def)
    obtain diam where diam: "array_max (concat D) = Inr diam"
      using r assms D
      by (cases "array_max (concat D)") (simp_all add: furthest_point_sampling_def Let_def)
    let ?n = "case N of None \<Rightarrow> int (nrows D) | Some k \<Rightarrow> k"
    have n: "0 < ?n" and s: "5 < nrows D"
      using r assms D diam
      by (auto simp: furthest_point_sampling_def Let_def split: if_splits)
    let ?perm = "(replicate (nat ?n) 0)[0 := 5::nat]"
    obtain p l where loop: "fps_loop D diam (N = None) stop_crit [1..<nat ?n]
         (?perm, replicate (nat ?n) 0, D ! 5) = Inr (p, l)"
      and res: "perm = p" "lambdas = Some l"
      using r assms D diam n s
      by (auto simp: furthest_point_sampling_def Let_def split: if_splits sum.splits)
    have ne: "?perm \<noteq> []"
      using n by simp
    have "hd ?perm = 5"
      using n by (cases "nat ?n") simp_all
    moreover have "\<forall>i\<in>set [1..<nat ?n]. 1 \<le> i"
      by simp
    ultimately show ?thesis
      using fps_loop_first[OF _ ne loop] res by simp
  qed
  from same first show ?thesis by blast
qed

lemma pairwise_distances_six_points:
  "pairwise_distances six_points = Inr
  [[0, 1, 2, 3, 4, 5], [1, 0, 1, 2, 3, 4], [2, 1, 0, 1, 2, 3],
   [3, 2, 1, 0, 1, 2], [4, 3, 2, 1, 0, 1], [5, 4, 3, 2, 1, 0]]"
  by (simp add: pairwise_distances_def six_points_def nrows_def ncols_def euclidean_line)

lemma fps_six_points:
  "furthest_point_sampling six_points (Some 3) (1 / 10) s = Inr ([5, 0, 2], Some [0, 5, 2])"
  by (simp add: furthest_point_sampling_def pairwise_distances_six_points array_max_def nrows_def argmax_def Let_def
        true_divide_def upt_rec numeral_eq_Suc)


text \<open>
  The theorem at six points on a line, three samples and the start indices 0 and 3.
\<close>

theorem fps_start_idx_fixed_witness:
  "(1 / 10 :: real) \<noteq> 0
   \<and> furthest_point_sampling six_points (Some 3) (1 / 10) 0
       = furthest_point_sampling six_points (Some 3) (1 / 10) 3
   \<and> furthest_point_sampling six_points (Some 3) (1 / 10) 0 = Inr ([5, 0, 2], Some [0, 5, 2])
   \<and> [5, 0, 2 :: nat] \<noteq> [] \<and> hd [5, 0, 2 :: nat] = 5"
proof -
  have h: "(1 / 10 :: real) \<noteq> 0"
    by simp
  from fps_start_idx_fixed[OF h, of six_points "Some 3" 0 3] fps_six_points[of 0] h
  show ?thesis
    by simp
qed

lemma pairwise_distances_shape:
  assumes "pairwise_distances x = Inr D"
  shows "nrows D = length x \<and> x \<noteq> [] \<and> concat D \<noteq> []"
proof -
  have x: "nrows x \<noteq> 0" "ncols x \<noteq> 0" and D: "D = map (\<lambda>p. map (\<lambda>q. euclidean p q) x) x"
    using assms by (auto simp: pairwise_distances_def split: if_splits)
  from x have ne: "x \<noteq> []"
    by (auto simp: nrows_def)
  then obtain p r where "x = p # r"
    by (cases x) auto
  then show ?thesis
    using D by (simp add: nrows_def)
qed

text \<open>
  C9 (as amended). With \<open>stop_crit \<noteq> 0\<close>, \<^verbatim>\<open>furthest_point_sampling\<close> on at most five
  points always raises; the exception is \<^verbatim>\<open>IndexError\<close> when there is at least one point
  (with at least one coordinate) and \<open>N\<close> is unspecified or not negative.
\<close>

theorem fps_small_point_set:
  assumes sc: "stop_crit \<noteq> 0" and small: "length x \<le> 5"
  shows "(\<exists>e. furthest_point_sampling x N stop_crit s = Inl e)
       \<and> (x \<noteq> [] \<and> hd x \<noteq> [] \<and> (N = None \<or> (\<exists>k\<ge>0. N = Some k))
            \<longrightarrow> furthest_point_sampling x N stop_crit s = Inl IndexError)"
proof (cases "pairwise_distances x")
  case (Inl e)
  then have "nrows x = 0 \<or> ncols x = 0"
    by (auto simp: pairwise_distances_def split: if_splits)
  then have "x = [] \<or> hd x = []"
    by (cases x) (auto simp: nrows_def ncols_def)
  then show ?thesis
    using Inl sc by (auto simp: furthest_point_sampling_def)
next
  case (Inr D)
  from pairwise_distances_shape[OF Inr] have rows: "nrows D = length x" and ne: "concat D \<noteq> []"
    by simp_all
  obtain diam where diam: "array_max (concat D) = Inr diam"
    using ne by (cases "concat D") (simp_all add: array_max_def)
  have five: "\<not> 5 < nrows D"
    using rows small by simp
  let ?n = "case N of None \<Rightarrow> int (nrows D) | Some k \<Rightarrow> k"
  have res: "furthest_point_sampling x N stop_crit s =
      (if ?n < 0 then Inl ValueError else Inl IndexError)"
    using sc Inr diam five by (simp add: furthest_point_sampling_def Let_def)
  have "\<not> ?n < 0" if "N = None \<or> (\<exists>k\<ge>0. N = Some k)"
    using that by (auto split: option.splits)
  with res show ?thesis
    by auto
qed

text \<open>
  The theorem at five points on a line.
\<close>

theorem fps_small_point_set_witness:
  "(1 / 10 :: real) \<noteq> 0 \<and> length five_points \<le> 5
   \<and> five_points \<noteq> [] \<and> hd five_points \<noteq> [] \<and> (None = (None :: int option))
   \<and> furthest_point_sampling five_points None (1 / 10) 0 = Inl IndexError"
proof -
  have h: "(1 / 10 :: real) \<noteq> 0" "length five_points \<le> 5"
    by (simp_all add: five_points_def)
  have g: "five_points \<noteq> []" "hd five_points \<noteq> []"
    by (simp_all add: five_points_def)
  from fps_small_point_set[OF h, of None 0] g h show ?thesis
    by simp
qed

text \<open>
  C9 as stated fails on the empty point set, where the exception is the \<^verbatim>\<open>ValueError\<close> of
  the distance computation and not an index error; so it is for a negative \<open>N\<close>.
\<close>

theorem fps_error_kind_counterexample:
  "furthest_point_sampling [] None (1 / 10) 0 = Inl ValueError
   \<and> furthest_point_sampling [] None (1 / 10) 0 \<noteq> Inl IndexError
   \<and> furthest_point_sampling five_points (Some (- 1)) (1 / 10) 0 = Inl ValueError"
  by (simp add: furthest_point_sampling_def pairwise_distances_def nrows_def ncols_def
      five_points_def array_max_def euclidean_line Let_def)

section \<open>Properties of graph construction\<close>

lemma from_array_nodes:
  assumes "from_array A = Inr G"
  shows "nodes G = [0..<nrows A] \<and> pos G = (\<lambda>u. None)"
  using assms by (auto simp: from_array_def Let_def split: if_splits)

lemma from_array_square:
  assumes "is_array (length A) (length A) A"
  shows "\<exists>G. from_array A = Inr G"
  using assms by (simp add: from_array_def nrows_def Let_def)

lemma kneighbors_graph_shape:
  assumes "kneighbors_graph X k = Inr A"
  shows "is_array (length X) (length X) A"
  using assms
  by (auto simp: kneighbors_graph_def is_array_def nrows_def Let_def list_all_length
      split: if_splits)

lemma is_array_add_eye:
  assumes "is_array n n A"
  shows "is_array n n (add_eye A)"
  using assms by (simp add: add_eye_def is_array_def list_all_length)

lemma pairwise_distances_array:
  assumes "pairwise_distances X = Inr D"
  shows "is_array (length X) (length X) D"
  using assms
  by (auto simp: pairwise_distances_def is_array_def list_all_length split: if_splits)

lemma is_array_map_map:
  assumes "is_array r c A"
  shows "is_array r c (map (map f) A)"
  using assms by (simp add: is_array_def list_all_length)

lemma is_array_length: "is_array r c A \<Longrightarrow> length A = r"
  by (simp add: is_array_def)

lemma attach_positions:
  assumes A: "is_array (length X) (length X) A"
  shows "\<exists>G0. from_array A = Inr G0
      \<and> (case from_array A of Inl e \<Rightarrow> Inl e
          | Inr G \<Rightarrow> if list_all (\<lambda>i. i < length X) (nodes G)
                      then Inr (G\<lparr> pos := (\<lambda>i. if i \<in> set (nodes G) then Some (X ! i) else pos G i) \<rparr>)
                      else Inl IndexError)
        = Inr (G0\<lparr> pos := (\<lambda>i. if i < length X then Some (X ! i) else None) \<rparr>)
      \<and> nodes G0 = [0..<length X]"
proof -
  have len: "length A = length X"
    using A by (rule is_array_length)
  then obtain G0 where G0: "from_array A = Inr G0"
    using from_array_square[of A] A by auto
  from from_array_nodes[OF G0] len have n: "nodes G0 = [0..<length X]" and p: "pos G0 = (\<lambda>u. None)"
    by (simp_all add: nrows_def)
  have "(\<lambda>i. if i \<in> set (nodes G0) then Some (X ! i) else pos G0 i)
      = (\<lambda>i. if i < length X then Some (X ! i) else None)"
    by (rule ext) (simp add: n p)
  then show ?thesis
    using G0 n by (simp add: list_all_length)
qed

lemma manifold_graph_knn:
  assumes "kneighbors_graph X k = Inr A"
  shows "\<exists>G. manifold_graph X ''knn'' k = Inr G \<and> nodes G = [0..<length X]
           \<and> (\<forall>i<length X. pos G i = Some (X ! i))"
proof -
  have "is_array (length X) (length X) (add_eye A)"
    by (rule is_array_add_eye[OF kneighbors_graph_shape[OF assms]])
  from attach_positions[OF this] assms show ?thesis
    by (auto simp: manifold_graph_def Let_def)
qed

lemma manifold_graph_affinity:
  assumes "pairwise_distances X = Inr D"
  shows "\<exists>G. manifold_graph X ''affinity'' k = Inr G \<and> nodes G = [0..<length X]
           \<and> (\<forall>i<length X. pos G i = Some (X ! i))"
proof -
  let ?A = "map (map (\<lambda>d. exp (- (d * d) / (2 * (1 / 10 * (1 / 10)))))) D"
  have "is_array (length X) (length X) ?A"
    by (rule is_array_map_map[OF pairwise_distances_array[OF assms]])
  from attach_positions[OF this] assms show ?thesis
    by (auto simp: manifold_graph_def Let_def)
qed

lemma manifold_graph_unsupported:
  assumes "typ \<noteq> ''knn''" "typ \<noteq> ''affinity''"
  shows "manifold_graph X typ k = Inl UnboundLocalError"
  using assms by (simp add: manifold_graph_def)

lemma manifold_graph_returned:
  assumes "manifold_graph X typ k = Inr G"
  shows "(typ = ''knn'' \<or> typ = ''affinity'') \<and> nodes G = [0..<length X]
           \<and> (\<forall>i<length X. pos G i = Some (X ! i))"
proof -
  consider (knn) "typ = ''knn''" | (aff) "typ = ''affinity''"
    | (other) "typ \<noteq> ''knn''" "typ \<noteq> ''affinity''"
    by blast
  then show ?thesis
  proof cases
    case knn
    then obtain A where A: "kneighbors_graph X k = Inr A"
      using assms by (cases "kneighbors_graph X k") (simp_all add: manifold_graph_def)
    from manifold_graph_knn[OF A] assms knn show ?thesis
      by auto
  next
    case aff
    then obtain D where D: "pairwise_distances X = Inr D"
      using assms by (cases "pairwise_distances X") (simp_all add: manifold_graph_def)
    from manifold_graph_affinity[OF D, of k] assms aff show ?thesis
      by auto
  next
    case other
    then show ?thesis
      using assms by (simp add: manifold_graph_unsupported)
  qed
qed

lemma nonempty_shape: "X \<noteq> [] \<Longrightarrow> hd X \<noteq> [] \<Longrightarrow> nrows X \<noteq> 0 \<and> ncols X \<noteq> 0"
  by (cases X) (simp_all add: nrows_def ncols_def)

lemma manifold_graph_total:
  assumes "X \<noteq> []" "hd X \<noteq> []"
    and "typ = ''affinity'' \<or> (typ = ''knn'' \<and> 0 < k \<and> k < int (length X))"
  shows "\<exists>G. manifold_graph X typ k = Inr G"
proof -
  from nonempty_shape[OF assms(1,2)] have s: "nrows X \<noteq> 0" "ncols X \<noteq> 0"
    by simp_all
  from assms(3) show ?thesis
  proof
    assume t: "typ = ''affinity''"
    have "\<exists>D. pairwise_distances X = Inr D"
      using s by (simp add: pairwise_distances_def)
    then show ?thesis
      using manifold_graph_affinity[of X _ k] t by blast
  next
    assume t: "typ = ''knn'' \<and> 0 < k \<and> k < int (length X)"
    then have "\<exists>A. kneighbors_graph X k = Inr A"
      using s by (simp add: kneighbors_graph_def nrows_def)
    then show ?thesis
      using manifold_graph_knn[of X k] t by blast
  qed
qed

text \<open>
  C10 (as amended). For a \<^verbatim>\<open>typ\<close> other than \<^verbatim>\<open>'knn'\<close> and \<^verbatim>\<open>'affinity'\<close>,
  \<^verbatim>\<open>manifold_graph\<close> raises the unbound-variable error for every point set. A graph is
  returned only for the two supported types, and a returned graph has the nodes
  \<open>0, \<dots>, n - 1\<close>, each with its point's coordinates as \<^verbatim>\<open>pos\<close>. A graph is returned for
  \<^verbatim>\<open>'affinity'\<close> on every point set with at least one point and one coordinate, and for
  \<^verbatim>\<open>'knn'\<close> when moreover \<open>0 < n_neighbors < n\<close>.
\<close>

theorem manifold_graph_result:
  "(typ \<noteq> ''knn'' \<and> typ \<noteq> ''affinity'' \<longrightarrow> manifold_graph X typ k = Inl UnboundLocalError)
   \<and> (\<forall>G. manifold_graph X typ k = Inr G
         \<longrightarrow> (typ = ''knn'' \<or> typ = ''affinity'') \<and> nodes G = [0..<length X]
             \<and> (\<forall>i<length X. pos G i = Some (X ! i)))
   \<and> (X \<noteq> [] \<and> hd X \<noteq> []
        \<and> (typ = ''affinity'' \<or> (typ = ''knn'' \<and> 0 < k \<and> k < int (length X)))
       \<longrightarrow> (\<exists>G. manifold_graph X typ k = Inr G))"
proof (intro conjI allI impI)
  assume "typ \<noteq> ''knn'' \<and> typ \<noteq> ''affinity''"
  then show "manifold_graph X typ k = Inl UnboundLocalError"
    by (simp add: manifold_graph_unsupported)
next
  fix G
  assume r: "manifold_graph X typ k = Inr G"
  from manifold_graph_returned[OF r] show "typ = ''knn'' \<or> typ = ''affinity''"
    by simp
  from manifold_graph_returned[OF r] show "nodes G = [0..<length X]"
    by simp
  fix i assume "i < length X"
  with manifold_graph_returned[OF r] show "pos G i = Some (X ! i)"
    by simp
next
  assume a: "X \<noteq> [] \<and> hd X \<noteq> []
        \<and> (typ = ''affinity'' \<or> (typ = ''knn'' \<and> 0 < k \<and> k < int (length X)))"
  then have "X \<noteq> []" "hd X \<noteq> []"
    "typ = ''affinity'' \<or> (typ = ''knn'' \<and> 0 < k \<and> k < int (length X))"
    by simp_all
  then show "\<exists>G. manifold_graph X typ k = Inr G"
    by (rule manifold_graph_total)
qed

text \<open>
  C10 as stated fails where the library call of a supported type rejects its input: the
  empty point set with \<^verbatim>\<open>'affinity'\<close>, and three points with \<^verbatim>\<open>'knn'\<close> and the default
  five neighbours, raise \<^verbatim>\<open>ValueError\<close> and return no graph.
\<close>

theorem manifold_graph_always_counterexample:
  "manifold_graph [] ''affinity'' 5 = Inl ValueError
   \<and> manifold_graph [[0], [1], [2]] ''knn'' 5 = Inl ValueError"
  by (simp add: manifold_graph_def pairwise_distances_def kneighbors_graph_def nrows_def ncols_def)

text \<open>
  The theorem at three points on a line.
\<close>

theorem manifold_graph_result_witness:
  "''cosine'' \<noteq> ''knn'' \<and> ''cosine'' \<noteq> ''affinity''
   \<and> manifold_graph [[0], [1], [2]] ''cosine'' 5 = Inl UnboundLocalError
   \<and> [[0], [1], [2 :: real]] \<noteq> [] \<and> hd [[0], [1], [2 :: real]] \<noteq> []
   \<and> (0::int) < 2 \<and> (2::int) < int (length [[0], [1], [2 :: real]])
   \<and> (\<exists>G. manifold_graph [[0], [1], [2]] ''knn'' 2 = Inr G \<and> nodes G = [0, 1, 2]
         \<and> pos G 0 = Some [0] \<and> pos G 1 = Some [1] \<and> pos G 2 = Some [2])
   \<and> (\<exists>G. manifold_graph [[0], [1], [2]] ''affinity'' 5 = Inr G \<and> nodes G = [0, 1, 2]
         \<and> pos G 2 = Some [2])"
proof -
  let ?X = "[[0], [1], [2 :: real]]"
  note t1 = manifold_graph_result[of "''cosine''" ?X 5]
  note t2 = manifold_graph_result[of "''knn''" ?X 2]
  note t3 = manifold_graph_result[of "''affinity''" ?X 5]
  have u: "manifold_graph ?X ''cosine'' 5 = Inl UnboundLocalError"
    using t1[THEN conjunct1] by simp
  obtain G2 where G2: "manifold_graph ?X ''knn'' 2 = Inr G2"
    using t2[THEN conjunct2, THEN conjunct2] by auto
  from t2[THEN conjunct2, THEN conjunct1, rule_format, OF G2]
  have p2: "nodes G2 = [0, 1, 2] \<and> pos G2 0 = Some [0] \<and> pos G2 1 = Some [1] \<and> pos G2 2 = Some [2]"
    by (simp add: upt_rec)
  obtain G3 where G3: "manifold_graph ?X ''affinity'' 5 = Inr G3"
    using t3[THEN conjunct2, THEN conjunct2] by auto
  from t3[THEN conjunct2, THEN conjunct1, rule_format, OF G3]
  have p3: "nodes G3 = [0, 1, 2] \<and> pos G3 2 = Some [2]"
    by (simp add: upt_rec)
  from u G2 p2 G3 p3 show ?thesis
    by simp
qed

section \<open>The block pattern of the connection Laplacian\<close>

lemma replicate_two: "replicate 2 x = [x, x]"
  by (simp add: numeral_2_eq_2)

lemma is_array_block: "is_array d d (block M d i j)"
  by (simp add: block_def is_array_def list_all_length)

lemma connection_block:
  assumes n: "0 < length (nodes G)"
    and R: "is_array (length (nodes G) * d) (length (nodes G) * d) R"
  shows "\<exists>Lc. compute_connection_laplacian G R None = Inr Lc
          \<and> is_array (length (nodes G) * d) (length (nodes G) * d) Lc
          \<and> (\<forall>i<length (nodes G). \<forall>j<length (nodes G).
               block Lc d i j = map (map (\<lambda>r. Fin (laplacian_matrix G ! i ! j * r))) (block R d i j))"
proof -
  obtain Lc where res: "compute_connection_laplacian G R None = Inr Lc"
    and arr: "is_array (length (nodes G) * d) (length (nodes G) * d) Lc"
    and ent: "\<forall>i<length (nodes G). \<forall>j<length (nodes G). \<forall>a<d. \<forall>b<d.
               Lc ! (i * d + a) ! (j * d + b)
                 = Fin (laplacian_matrix G ! i ! j * R ! (i * d + a) ! (j * d + b))"
    using connection_entry[OF n R] by blast
  have "block Lc d i j = map (map (\<lambda>r. Fin (laplacian_matrix G ! i ! j * r))) (block R d i j)"
    if "i < length (nodes G)" "j < length (nodes G)" for i j
    using ent that by (simp add: block_def)
  with res arr show ?thesis by blast
qed

lemma scaled_block_nonzero:
  assumes "is_array d d B"
  shows "(map (map (\<lambda>r. Fin (c * r))) B \<noteq> replicate d (replicate d (Fin 0)))
           = (c \<noteq> 0 \<and> B \<noteq> replicate d (replicate d 0))"
proof -
  have len: "length B = d" and rows: "\<forall>a<d. length (B ! a) = d"
    using assms by (simp_all add: is_array_def list_all_length)
  have l: "(map (map (\<lambda>r. Fin (c * r))) B = replicate d (replicate d (Fin 0)))
         = (\<forall>a<d. \<forall>b<d. c * B ! a ! b = 0)"
    using len rows by (auto simp: list_eq_iff_nth_eq)
  have r: "(B = replicate d (replicate d 0)) = (\<forall>a<d. \<forall>b<d. B ! a ! b = 0)"
    using len rows by (auto simp: list_eq_iff_nth_eq)
  show ?thesis
    unfolding l r by auto
qed

lemma identity_nonzero:
  assumes "0 < d"
  shows "identity d \<noteq> replicate d (replicate d 0)"
proof
  assume "identity d = replicate d (replicate d 0)"
  then have "identity d ! 0 ! 0 = replicate d (replicate d (0::real)) ! 0 ! 0"
    by simp
  then show False
    using assms by (simp add: identity_def)
qed

text \<open>
  C1 (as amended). For a graph with at least one node and transport matrices \<open>R\<close> that
  satisfy the invariant of the data model in a dimension \<open>d \<ge> 1\<close>,
  \<^verbatim>\<open>compute_connection_laplacian\<close> without normalization returns the matrix whose block
  \<open>(i, j)\<close> is \<open>L(i, j) \<cdot> R(i, j)\<close>, for the scalar Laplacian \<open>L = D - A\<close>. An off-diagonal
  block is minus the edge weight times the transport block, and it is nonzero exactly when
  there is an edge and its weight is not 0. A diagonal block is the weighted degree
  (positive, not negated) times the identity, and it is nonzero exactly when the weighted
  degree is not 0.
\<close>

theorem connection_laplacian_blocks:
  assumes n: "0 < length (nodes G)" and d: "0 < d" and inv: "transport_invariant G d R"
  shows "\<exists>Lc. compute_connection_laplacian G R None = Inr Lc
          \<and> is_array (length (nodes G) * d) (length (nodes G) * d) Lc
          \<and> (\<forall>i<length (nodes G). \<forall>j<length (nodes G).
               block Lc d i j
                 = map (map (\<lambda>r. Fin (laplacian_matrix G ! i ! j * r))) (block R d i j)
               \<and> (i \<noteq> j \<longrightarrow> block Lc d i j
                     = map (map (\<lambda>r. Fin (- weight G (nodes G ! i) (nodes G ! j) * r)))
                         (block R d i j))
               \<and> (i \<noteq> j \<longrightarrow> (block Lc d i j \<noteq> replicate d (replicate d (Fin 0)))
                     = (adj G (nodes G ! i) (nodes G ! j) \<noteq> None
                        \<and> weight G (nodes G ! i) (nodes G ! j) \<noteq> 0))
               \<and> block Lc d i i = map (map (\<lambda>r. Fin (weighted_degree G i * r))) (identity d)
               \<and> (block Lc d i i \<noteq> replicate d (replicate d (Fin 0)))
                     = (weighted_degree G i \<noteq> 0))"
proof -
  let ?n = "length (nodes G)"
  let ?Z = "replicate d (replicate d (Fin 0))"
  from inv have R: "is_array (?n * d) (?n * d) R"
    and diag: "\<forall>i<?n. block R d i i = identity d"
    and off: "\<forall>i<?n. \<forall>j<?n. i \<noteq> j \<longrightarrow>
        (block R d i j \<noteq> replicate d (replicate d 0)) = (adj G (nodes G ! i) (nodes G ! j) \<noteq> None)"
    by (auto simp: transport_invariant_def list_all_length)
  obtain Lc where res: "compute_connection_laplacian G R None = Inr Lc"
    and arr: "is_array (?n * d) (?n * d) Lc"
    and blk: "\<forall>i<?n. \<forall>j<?n.
               block Lc d i j = map (map (\<lambda>r. Fin (laplacian_matrix G ! i ! j * r))) (block R d i j)"
    using connection_block[OF n R] by blast
  have "block Lc d i j
          = map (map (\<lambda>r. Fin (laplacian_matrix G ! i ! j * r))) (block R d i j)
        \<and> (i \<noteq> j \<longrightarrow> block Lc d i j
              = map (map (\<lambda>r. Fin (- weight G (nodes G ! i) (nodes G ! j) * r))) (block R d i j))
        \<and> (i \<noteq> j \<longrightarrow> (block Lc d i j \<noteq> ?Z)
              = (adj G (nodes G ! i) (nodes G ! j) \<noteq> None
                 \<and> weight G (nodes G ! i) (nodes G ! j) \<noteq> 0))
        \<and> block Lc d i i = map (map (\<lambda>r. Fin (weighted_degree G i * r))) (identity d)
        \<and> (block Lc d i i \<noteq> ?Z) = (weighted_degree G i \<noteq> 0)"
    if ij: "i < ?n" "j < ?n" for i j
  proof -
    have b: "block Lc d i j
          = map (map (\<lambda>r. Fin (laplacian_matrix G ! i ! j * r))) (block R d i j)"
      using blk ij by blast
    have o: "block Lc d i j
          = map (map (\<lambda>r. Fin (- weight G (nodes G ! i) (nodes G ! j) * r))) (block R d i j)"
      if "i \<noteq> j"
      using b laplacian_offdiag[OF ij that] by simp
    have p: "(block Lc d i j \<noteq> ?Z)
          = (adj G (nodes G ! i) (nodes G ! j) \<noteq> None \<and> weight G (nodes G ! i) (nodes G ! j) \<noteq> 0)"
      if "i \<noteq> j"
    proof -
      have "(block Lc d i j \<noteq> ?Z)
          = (- weight G (nodes G ! i) (nodes G ! j) \<noteq> 0
             \<and> block R d i j \<noteq> replicate d (replicate d 0))"
        unfolding o[OF that] by (rule scaled_block_nonzero[OF is_array_block])
      then show ?thesis
        using off ij that by auto
    qed
    have e: "block Lc d i i = map (map (\<lambda>r. Fin (weighted_degree G i * r))) (identity d)"
      using blk ij(1) diag laplacian_diag[OF ij(1)] by simp
    have q: "(block Lc d i i \<noteq> ?Z) = (weighted_degree G i \<noteq> 0)"
    proof -
      have "(block Lc d i i \<noteq> ?Z)
          = (weighted_degree G i \<noteq> 0 \<and> identity d \<noteq> replicate d (replicate d 0))"
        unfolding e by (rule scaled_block_nonzero[OF is_array_identity])
      then show ?thesis
        using identity_nonzero[OF d] by simp
    qed
    from b o p e q show ?thesis by blast
  qed
  with res arr show ?thesis by blast
qed

lemma laplacian_two_edges:
  "laplacian_matrix two_edges_and_isolated
     = [[1, - 1, 0, 0], [- 1, 1, 0, 0], [0, 0, 0, 0], [0, 0, 0, 0]]"
  by (simp add: two_edges_and_isolated_def laplacian_matrix_def adjacency_matrix_def weight_def
      add_edge_def empty_graph_def Let_def upt_rec)

lemma nodes_two_edges: "nodes two_edges_and_isolated = [0, 1, 2, 3]"
  by (simp add: two_edges_and_isolated_def add_edge_def empty_graph_def upt_rec)

lemma adj_two_edges:
  "adj two_edges_and_isolated u v =
     (if (u = 1 \<and> v = 3) \<or> (u = 3 \<and> v = 1) then Some 0
      else if (u = 0 \<and> v = 1) \<or> (u = 1 \<and> v = 0) then Some 1 else None)"
  by (simp add: two_edges_and_isolated_def add_edge_def empty_graph_def)

lemma transport_two_edges_invariant:
  "transport_invariant two_edges_and_isolated 2 transport_two_edges"
  by (simp add: transport_invariant_def nodes_two_edges adj_two_edges is_array_def block_def
      identity_def transport_two_edges_def upt_rec replicate_two)

text \<open>
  The theorem at the graph with the edges \<open>0 - 1\<close> and \<open>1 - 3\<close> and the isolated node \<open>2\<close>,
  in dimension 2.
\<close>

theorem connection_laplacian_blocks_witness:
  "0 < length (nodes two_edges_and_isolated) \<and> (0::nat) < 2
   \<and> transport_invariant two_edges_and_isolated 2 transport_two_edges
   \<and> (\<exists>Lc. compute_connection_laplacian two_edges_and_isolated transport_two_edges None = Inr Lc
         \<and> block Lc 2 0 1 = [[Fin (- 1), Fin 0], [Fin 0, Fin (- 1)]]
         \<and> block Lc 2 0 2 = [[Fin 0, Fin 0], [Fin 0, Fin 0]]
         \<and> block Lc 2 1 1 = [[Fin 1, Fin 0], [Fin 0, Fin 1]]
         \<and> block Lc 2 2 2 = [[Fin 0, Fin 0], [Fin 0, Fin 0]])"
proof -
  let ?G = two_edges_and_isolated
  let ?R = transport_two_edges
  have h1: "0 < length (nodes ?G)"
    by (simp add: nodes_two_edges)
  have h2: "(0::nat) < 2"
    by simp
  note h3 = transport_two_edges_invariant
  obtain Lc where res: "compute_connection_laplacian ?G ?R None = Inr Lc"
    and all: "\<forall>i<length (nodes ?G). \<forall>j<length (nodes ?G).
               block Lc 2 i j
                 = map (map (\<lambda>r. Fin (laplacian_matrix ?G ! i ! j * r))) (block ?R 2 i j)
               \<and> (i \<noteq> j \<longrightarrow> block Lc 2 i j
                     = map (map (\<lambda>r. Fin (- weight ?G (nodes ?G ! i) (nodes ?G ! j) * r)))
                         (block ?R 2 i j))
               \<and> (i \<noteq> j \<longrightarrow> (block Lc 2 i j \<noteq> replicate 2 (replicate 2 (Fin 0)))
                     = (adj ?G (nodes ?G ! i) (nodes ?G ! j) \<noteq> None
                        \<and> weight ?G (nodes ?G ! i) (nodes ?G ! j) \<noteq> 0))
               \<and> block Lc 2 i i = map (map (\<lambda>r. Fin (weighted_degree ?G i * r))) (identity 2)
               \<and> (block Lc 2 i i \<noteq> replicate 2 (replicate 2 (Fin 0)))
                     = (weighted_degree ?G i \<noteq> 0)"
    using connection_laplacian_blocks[OF h1 h2 h3] by blast
  have len: "length (nodes ?G) = 4"
    by (simp add: nodes_two_edges)
  have a: "block Lc 2 0 1
      = map (map (\<lambda>r. Fin (- weight ?G (nodes ?G ! 0) (nodes ?G ! 1) * r))) (block ?R 2 0 1)"
    using all[rule_format, of 0 1, THEN conjunct2, THEN conjunct1] by (simp add: len)
  have a': "block Lc 2 0 1 = [[Fin (- 1), Fin 0], [Fin 0, Fin (- 1)]]"
    unfolding a
    by (simp add: nodes_two_edges adj_two_edges weight_def block_def transport_two_edges_def
        upt_rec)
  have b: "(block Lc 2 0 2 \<noteq> replicate 2 (replicate 2 (Fin 0)))
      = (adj ?G (nodes ?G ! 0) (nodes ?G ! 2) \<noteq> None \<and> weight ?G (nodes ?G ! 0) (nodes ?G ! 2) \<noteq> 0)"
    using all[rule_format, of 0 2, THEN conjunct2, THEN conjunct2, THEN conjunct1]
    by (simp add: len)
  have b': "block Lc 2 0 2 = [[Fin 0, Fin 0], [Fin 0, Fin 0]]"
    using b by (simp add: nodes_two_edges adj_two_edges replicate_two)
  have c: "block Lc 2 1 1 = map (map (\<lambda>r. Fin (weighted_degree ?G 1 * r))) (identity 2)"
    using all[rule_format, of 1 1, THEN conjunct2, THEN conjunct2, THEN conjunct2, THEN conjunct1]
    by (simp add: len)
  have c': "block Lc 2 1 1 = [[Fin 1, Fin 0], [Fin 0, Fin 1]]"
    unfolding c
    by (simp add: nodes_two_edges adj_two_edges weight_def weighted_degree_def identity_def
        upt_rec)
  have e: "(block Lc 2 2 2 \<noteq> replicate 2 (replicate 2 (Fin 0))) = (weighted_degree ?G 2 \<noteq> 0)"
    using all[rule_format, of 2 2, THEN conjunct2, THEN conjunct2, THEN conjunct2, THEN conjunct2]
    by (simp add: len)
  have e': "block Lc 2 2 2 = [[Fin 0, Fin 0], [Fin 0, Fin 0]]"
    using e
    by (simp add: nodes_two_edges adj_two_edges weight_def weighted_degree_def replicate_two
        upt_rec)
  from h1 h2 h3 res a' b' c' e' show ?thesis by blast
qed

text \<open>
  C1 as stated fails on that graph, whose transport matrices satisfy the invariant. The
  diagonal block of the isolated node is zero, and the block of the edge \<open>1 - 3\<close> of weight
  0 is zero, so the nonzero blocks are not the edges plus the diagonal. The diagonal block
  of node 0 is \<open>+1\<close> times the identity, where the degree is 1, not \<open>-1\<close> times the
  identity; and the block of the edge \<open>0 - 1\<close> is \<open>-1\<close> times the transport block, where the
  edge weight is 1.
\<close>

theorem connection_laplacian_pattern_counterexample:
  "transport_invariant two_edges_and_isolated 2 transport_two_edges
   \<and> (case compute_connection_laplacian two_edges_and_isolated transport_two_edges None of
        Inl e \<Rightarrow> False
      | Inr Lc \<Rightarrow>
          \<not> spec_block_pattern two_edges_and_isolated 2 Lc
          \<and> block Lc 2 2 2 = [[Fin 0, Fin 0], [Fin 0, Fin 0]]
          \<and> degree two_edges_and_isolated 0 = 1
          \<and> block Lc 2 0 0 = [[Fin 1, Fin 0], [Fin 0, Fin 1]]
          \<and> block Lc 2 0 0 \<noteq> [[Fin (- 1), Fin 0], [Fin 0, Fin (- 1)]]
          \<and> weight two_edges_and_isolated 0 1 = 1
          \<and> block Lc 2 0 1 = [[Fin (- 1), Fin 0], [Fin 0, Fin (- 1)]]
          \<and> adj two_edges_and_isolated 1 3 = Some 0
          \<and> block Lc 2 1 3 = [[Fin 0, Fin 0], [Fin 0, Fin 0]])"
proof -
  let ?G = two_edges_and_isolated
  let ?R = transport_two_edges
  have n: "0 < length (nodes ?G)"
    by (simp add: nodes_two_edges)
  have R: "is_array (length (nodes ?G) * 2) (length (nodes ?G) * 2) ?R"
    by (simp add: nodes_two_edges is_array_def transport_two_edges_def)
  obtain Lc where res: "compute_connection_laplacian ?G ?R None = Inr Lc"
    and blk: "\<forall>i<length (nodes ?G). \<forall>j<length (nodes ?G).
               block Lc 2 i j
                 = map (map (\<lambda>r. Fin (laplacian_matrix ?G ! i ! j * r))) (block ?R 2 i j)"
    using connection_block[OF n R] by blast
  have b: "block Lc 2 i j
        = map (map (\<lambda>r. Fin (laplacian_matrix ?G ! i ! j * r))) (block ?R 2 i j)"
    if "i < 4" "j < 4" for i j
    using blk that by (simp add: nodes_two_edges)
  have "block Lc 2 2 2
      = map (map (\<lambda>r. Fin (laplacian_matrix ?G ! 2 ! 2 * r))) (block ?R 2 2 2)"
    by (rule b) simp_all
  also have "\<dots> = [[Fin 0, Fin 0], [Fin 0, Fin 0]]"
    by (simp add: laplacian_two_edges block_def transport_two_edges_def upt_rec)
  finally have b22: "block Lc 2 2 2 = [[Fin 0, Fin 0], [Fin 0, Fin 0]]" .
  have "block Lc 2 0 0
      = map (map (\<lambda>r. Fin (laplacian_matrix ?G ! 0 ! 0 * r))) (block ?R 2 0 0)"
    by (rule b) simp_all
  also have "\<dots> = [[Fin 1, Fin 0], [Fin 0, Fin 1]]"
    by (simp add: laplacian_two_edges block_def transport_two_edges_def upt_rec)
  finally have b00: "block Lc 2 0 0 = [[Fin 1, Fin 0], [Fin 0, Fin 1]]" .
  have "block Lc 2 0 1
      = map (map (\<lambda>r. Fin (laplacian_matrix ?G ! 0 ! 1 * r))) (block ?R 2 0 1)"
    by (rule b) simp_all
  also have "\<dots> = [[Fin (- 1), Fin 0], [Fin 0, Fin (- 1)]]"
    by (simp add: laplacian_two_edges block_def transport_two_edges_def upt_rec)
  finally have b01: "block Lc 2 0 1 = [[Fin (- 1), Fin 0], [Fin 0, Fin (- 1)]]" .
  have "block Lc 2 1 3
      = map (map (\<lambda>r. Fin (laplacian_matrix ?G ! 1 ! 3 * r))) (block ?R 2 1 3)"
    by (rule b) simp_all
  also have "\<dots> = [[Fin 0, Fin 0], [Fin 0, Fin 0]]"
    by (simp add: laplacian_two_edges block_def transport_two_edges_def upt_rec)
  finally have b13: "block Lc 2 1 3 = [[Fin 0, Fin 0], [Fin 0, Fin 0]]" .
  have "block Lc 2 (Suc (Suc 0)) (Suc (Suc 0)) = [[Fin 0, Fin 0], [Fin 0, Fin 0]]"
    using b22 by (simp add: numeral_2_eq_2)
  then have pat: "\<not> spec_block_pattern ?G 2 Lc"
    by (simp add: spec_block_pattern_def nodes_two_edges upt_rec replicate_two)
  have deg: "degree ?G 0 = 1"
    by (simp add: degree_def nodes_two_edges adj_two_edges)
  have w: "weight ?G 0 1 = 1" "adj ?G 1 3 = Some 0"
    by (simp_all add: weight_def adj_two_edges)
  from res b22 b00 b01 b13 pat deg w transport_two_edges_invariant show ?thesis
    by simp
qed

section \<open>The random-walk normalization and isolated nodes\<close>

lemma concat_replicate_nth:
  assumes "i < length xs" "a < d"
  shows "concat (map (replicate d) xs) ! (i * d + a) = xs ! i"
  using assms
proof (induction xs arbitrary: i)
  case Nil
  then show ?case by simp
next
  case (Cons x xs)
  show ?case
  proof (cases i)
    case 0
    then show ?thesis using Cons.prems by (simp add: nth_append)
  next
    case (Suc k)
    then have "k < length xs" using Cons.prems by simp
    from Cons.IH[OF this Cons.prems(2)] Suc show ?thesis
      by (simp add: nth_append)
  qed
qed

lemma length_concat_replicate: "length (concat (map (replicate d) xs)) = length xs * d"
  by (induction xs) simp_all

lemma diags_matmul_nth:
  assumes "k < length ds" "k < length M" "c < length (M ! k)"
  shows "diags_matmul ds M ! k ! c = f_mul (ds ! k) (M ! k ! c)"
  using assms by (simp add: diags_matmul_def)

lemma is_array_diags_matmul:
  assumes "is_array r c M" "length ds = r"
  shows "is_array r c (diags_matmul ds M)"
  using assms by (simp add: diags_matmul_def is_array_def list_all_length)

text \<open>
  The guard \<^verbatim>\<open>deg_inv[deg_inv == float("inf")] = 0\<close>: the scale of a node is finite, and it
  is 0 for a node of degree 0.
\<close>

lemma guarded_inverse_degree:
  "(\<lambda>v. if v = PInf then Fin 0 else v) (true_divide 1 (real k))
     = Fin (if k = 0 then 0 else 1 / real k)"
  by (simp add: true_divide_def)

text \<open>
  With \<^verbatim>\<open>"rw"\<close>, \<^verbatim>\<open>compute_connection_laplacian\<close> scales block row \<open>i\<close> by the inverse
  degree of node \<open>i\<close>, and by 0 when the degree is 0: every entry is finite.
\<close>

lemma connection_laplacian_rw:
  assumes n: "0 < length (nodes G)"
    and R: "is_array (length (nodes G) * d) (length (nodes G) * d) R"
  shows "\<exists>Lc. compute_connection_laplacian G R (Some ''rw'') = Inr Lc
          \<and> is_array (length (nodes G) * d) (length (nodes G) * d) Lc
          \<and> (\<forall>i<length (nodes G). \<forall>j<length (nodes G). \<forall>a<d. \<forall>b<d.
               Lc ! (i * d + a) ! (j * d + b)
                 = Fin ((if degree G (nodes G ! i) = 0 then 0 else 1 / real (degree G (nodes G ! i)))
                        * (laplacian_matrix G ! i ! j * R ! (i * d + a) ! (j * d + b))))"
proof -
  let ?n = "length (nodes G)"
  obtain Lc where cl: "compute_laplacian G None = Inr (map (map Fin) (laplacian_matrix G))"
    and dm: "nrows R div ?n = d"
    and mult: "multiply (kron_ones (map (map Fin) (laplacian_matrix G)) d) R = Inr Lc"
    and arr: "is_array (?n * d) (?n * d) Lc"
    and ent: "\<forall>i<?n. \<forall>j<?n. \<forall>a<d. \<forall>b<d.
               Lc ! (i * d + a) ! (j * d + b)
                 = Fin (laplacian_matrix G ! i ! j * R ! (i * d + a) ! (j * d + b))"
    using connection_product[OF n R] by blast
  let ?inv = "map (\<lambda>u. Fin (if degree G u = 0 then 0 else 1 / real (degree G u))) (nodes G)"
  have inv: "map (\<lambda>v. if v = PInf then Fin 0 else v)
               (map (true_divide 1) (map (\<lambda>u. real (degree G u)) (nodes G))) = ?inv"
    by (simp add: true_divide_def)
  let ?rep = "concat (map (replicate d) ?inv)"
  have "compute_connection_laplacian G R (Some ''rw'')
      = Inr (diags_matmul (concat (map (replicate d)
          (map (\<lambda>v. if v = PInf then Fin 0 else v)
             (map (true_divide 1) (map (\<lambda>u. real (degree G u)) (nodes G)))))) Lc)"
    using n cl dm mult by (simp add: compute_connection_laplacian_def Let_def del: map_map)
  then have rw: "compute_connection_laplacian G R (Some ''rw'') = Inr (diags_matmul ?rep Lc)"
    unfolding inv .
  have lenrep: "length ?rep = ?n * d"
    by (simp only: length_concat_replicate length_map)
  have arr': "is_array (?n * d) (?n * d) (diags_matmul ?rep Lc)"
    by (rule is_array_diags_matmul[OF arr lenrep])
  have "diags_matmul ?rep Lc ! (i * d + a) ! (j * d + b)
          = Fin ((if degree G (nodes G ! i) = 0 then 0 else 1 / real (degree G (nodes G ! i)))
                 * (laplacian_matrix G ! i ! j * R ! (i * d + a) ! (j * d + b)))"
    if ij: "i < ?n" "j < ?n" and ab: "a < d" "b < d" for i j a b
  proof -
    have r: "i * d + a < ?n * d" and c: "j * d + b < ?n * d"
      using that by (simp_all add: block_index_less)
    have lenL: "length Lc = ?n * d" and row: "length (Lc ! (i * d + a)) = ?n * d"
      using arr r by (simp_all add: is_array_def list_all_length)
    have s: "?rep ! (i * d + a) = Fin (if degree G (nodes G ! i) = 0 then 0
                                       else 1 / real (degree G (nodes G ! i)))"
      using concat_replicate_nth[of i ?inv a d] ij ab by simp
    have "diags_matmul ?rep Lc ! (i * d + a) ! (j * d + b)
        = f_mul (?rep ! (i * d + a)) (Lc ! (i * d + a) ! (j * d + b))"
      by (rule diags_matmul_nth) (simp_all only: lenrep lenL row r c)
    then show ?thesis
      using s ent ij ab by simp
  qed
  with rw arr' show ?thesis by blast
qed

lemma degree_zero_no_edge:
  assumes "degree G u = 0" "v \<in> set (nodes G)"
  shows "adj G u v = None"
  using assms by (auto simp: degree_def filter_empty_conv)

text \<open>
  A node of degree 0 has no edge, so its row of the Laplacian is zero and none of its
  entries is stored.
\<close>

lemma laplacian_row_isolated:
  assumes i: "i < length (nodes G)" and iso: "degree G (nodes G ! i) = 0"
  shows "laplacian_matrix G ! i = replicate (length (nodes G)) 0"
proof -
  have w: "weight G (nodes G ! i) v = 0" if "v \<in> set (nodes G)" for v
    using degree_zero_no_edge[OF iso that] by (simp add: weight_def)
  have "map (weight G (nodes G ! i)) (nodes G) = map (\<lambda>v. 0) (nodes G)"
    by (rule map_cong) (simp_all add: w)
  then have "sum_list (map (weight G (nodes G ! i)) (nodes G))
      = sum_list (map (\<lambda>v. 0::real) (nodes G))"
    by (rule arg_cong)
  then have s: "sum_list (map (weight G (nodes G ! i)) (nodes G)) = 0"
    by simp
  have "laplacian_matrix G ! i = map (\<lambda>c. 0) [0..<length (nodes G)]"
    unfolding laplacian_matrix_row[OF i] by (rule map_cong) (use s w in auto)
  then show ?thesis
    by (simp add: map_replicate_const)
qed

lemma compute_laplacian_rw_isolated_row:
  assumes i: "i < length (nodes G)" and iso: "degree G (nodes G ! i) = 0"
  shows "\<exists>L. compute_laplacian G (Some ''rw'') = Inr L
           \<and> L ! i = replicate (length (nodes G)) (Fin 0)"
proof -
  let ?n = "length (nodes G)"
  let ?recip = "map (true_divide 1) (map (\<lambda>i. real (degree G i)) (nodes G))"
  let ?f = "\<lambda>v s. if v = 0 then Fin 0 else f_mul (Fin v) s"
  have ne: "nodes G \<noteq> []"
    using i by auto
  have "map2 ?f (replicate ?n 0) ?recip = replicate ?n (Fin 0)"
    by (rule nth_equalityI) simp_all
  then have "map2 ?f (laplacian_matrix G ! i) ?recip = replicate ?n (Fin 0)"
    by (simp only: laplacian_row_isolated[OF i iso])
  then show ?thesis
    using ne i by (simp add: compute_laplacian_def Let_def length_laplacian_matrix del: map_map)
qed

lemma connection_laplacian_rw_isolated_rows:
  assumes i: "i < length (nodes G)" and iso: "degree G (nodes G ! i) = 0"
    and R: "is_array (length (nodes G) * d) (length (nodes G) * d) R"
  shows "\<exists>Lc. compute_connection_laplacian G R (Some ''rw'') = Inr Lc
           \<and> (\<forall>a<d. Lc ! (i * d + a) = replicate (length (nodes G) * d) (Fin 0))"
proof -
  let ?n = "length (nodes G)"
  have n: "0 < ?n"
    using i by auto
  obtain Lc where res: "compute_connection_laplacian G R (Some ''rw'') = Inr Lc"
    and arr: "is_array (?n * d) (?n * d) Lc"
    and ent: "\<forall>i<?n. \<forall>j<?n. \<forall>a<d. \<forall>b<d.
               Lc ! (i * d + a) ! (j * d + b)
                 = Fin ((if degree G (nodes G ! i) = 0 then 0 else 1 / real (degree G (nodes G ! i)))
                        * (laplacian_matrix G ! i ! j * R ! (i * d + a) ! (j * d + b)))"
    using connection_laplacian_rw[OF n R] by blast
  have "Lc ! (i * d + a) = replicate (?n * d) (Fin 0)" if a: "a < d" for a
  proof (rule nth_equalityI)
    have r: "i * d + a < ?n * d"
      using i a by (rule block_index_less)
    then show "length (Lc ! (i * d + a)) = length (replicate (?n * d) (Fin 0::float64))"
      using arr by (simp add: is_array_def list_all_length)
    fix c
    assume "c < length (Lc ! (i * d + a))"
    then have c: "c < ?n * d"
      using arr r by (simp add: is_array_def list_all_length)
    have d: "0 < d"
      using a by auto
    have j: "c div d < ?n"
      using c d by (simp add: less_mult_imp_div_less)
    have b: "c mod d < d"
      using d by simp
    have "Lc ! (i * d + a) ! (c div d * d + c mod d)
        = Fin ((if degree G (nodes G ! i) = 0 then 0 else 1 / real (degree G (nodes G ! i)))
               * (laplacian_matrix G ! i ! (c div d) * R ! (i * d + a) ! (c div d * d + c mod d)))"
      by (rule ent[rule_format, OF i j a b])
    then have "Lc ! (i * d + a) ! c = Fin 0"
      using iso by simp
    then show "Lc ! (i * d + a) ! c = replicate (?n * d) (Fin 0) ! c"
      using c by simp
  qed
  with res show ?thesis by blast
qed

text \<open>
  C5. For every graph and every node of degree 0, the \<^verbatim>\<open>"rw"\<close> normalization gives an
  all-zero row and no \<open>nan\<close> or infinite entry: in \<^verbatim>\<open>compute_laplacian\<close> the row of the
  node is zero, and in \<^verbatim>\<open>compute_connection_laplacian\<close> the scale of the node is 0, every
  scale is finite, and each row of the node's block row is zero.
\<close>

theorem rw_isolated_node_zero_row:
  assumes i: "i < length (nodes G)" and iso: "degree G (nodes G ! i) = 0"
  shows "(\<exists>L. compute_laplacian G (Some ''rw'') = Inr L
            \<and> L ! i = replicate (length (nodes G)) (Fin 0))
       \<and> (\<lambda>v. if v = PInf then Fin 0 else v) (true_divide 1 (real (degree G (nodes G ! i)))) = Fin 0
       \<and> (\<forall>u. is_finite ((\<lambda>v. if v = PInf then Fin 0 else v) (true_divide 1 (real (degree G u)))))
       \<and> (is_array (length (nodes G) * d) (length (nodes G) * d) R
            \<longrightarrow> (\<exists>Lc. compute_connection_laplacian G R (Some ''rw'') = Inr Lc
                    \<and> (\<forall>a<d. Lc ! (i * d + a) = replicate (length (nodes G) * d) (Fin 0))))"
proof (intro conjI allI impI)
  show "\<exists>L. compute_laplacian G (Some ''rw'') = Inr L
            \<and> L ! i = replicate (length (nodes G)) (Fin 0)"
    by (rule compute_laplacian_rw_isolated_row[OF i iso])
  show "(\<lambda>v. if v = PInf then Fin 0 else v) (true_divide 1 (real (degree G (nodes G ! i)))) = Fin 0"
    using iso by (simp add: true_divide_def)
  show "is_finite ((\<lambda>v. if v = PInf then Fin 0 else v) (true_divide 1 (real (degree G u))))" for u
    by (simp add: guarded_inverse_degree is_finite_def)
  show "\<exists>Lc. compute_connection_laplacian G R (Some ''rw'') = Inr Lc
           \<and> (\<forall>a<d. Lc ! (i * d + a) = replicate (length (nodes G) * d) (Fin 0))"
    if "is_array (length (nodes G) * d) (length (nodes G) * d) R"
    by (rule connection_laplacian_rw_isolated_rows[OF i iso that])
qed

text \<open>
  The theorem at the graph with the edge \<open>0 - 1\<close> and the isolated node \<open>2\<close>, in dimension 2.
\<close>

theorem rw_isolated_node_zero_row_witness:
  "2 < length (nodes edge_and_isolated) \<and> degree edge_and_isolated (nodes edge_and_isolated ! 2) = 0
   \<and> is_array (length (nodes edge_and_isolated) * 2) (length (nodes edge_and_isolated) * 2)
        transport_edge_and_isolated
   \<and> (\<exists>L. compute_laplacian edge_and_isolated (Some ''rw'') = Inr L \<and> L ! 2 = [Fin 0, Fin 0, Fin 0])
   \<and> (\<exists>Lc. compute_connection_laplacian edge_and_isolated transport_edge_and_isolated (Some ''rw'')
              = Inr Lc
         \<and> Lc ! 4 = [Fin 0, Fin 0, Fin 0, Fin 0, Fin 0, Fin 0]
         \<and> Lc ! 5 = [Fin 0, Fin 0, Fin 0, Fin 0, Fin 0, Fin 0])"
proof -
  let ?G = edge_and_isolated
  let ?R = transport_edge_and_isolated
  have nd: "nodes ?G = [0, 1, 2]"
    by (simp add: edge_and_isolated_def add_edge_def empty_graph_def upt_rec)
  have h1: "2 < length (nodes ?G)"
    by (simp add: nd)
  have h2: "degree ?G (nodes ?G ! 2) = 0"
    by (simp add: nd degree_def edge_and_isolated_def add_edge_def empty_graph_def)
  have h3: "is_array (length (nodes ?G) * 2) (length (nodes ?G) * 2) ?R"
    by (simp add: nd is_array_def transport_edge_and_isolated_def)
  note t = rw_isolated_node_zero_row[OF h1 h2, of 2 ?R]
  from t obtain L where L: "compute_laplacian ?G (Some ''rw'') = Inr L"
    "L ! 2 = replicate (length (nodes ?G)) (Fin 0)"
    by blast
  from t h3 obtain Lc where Lc: "compute_connection_laplacian ?G ?R (Some ''rw'') = Inr Lc"
    "\<forall>a<2. Lc ! (2 * 2 + a) = replicate (length (nodes ?G) * 2) (Fin 0)"
    by blast
  have r3: "replicate 3 x = [x, x, x]" and r6: "replicate 6 x = [x, x, x, x, x, x]" for x :: float64
    by (simp_all add: numeral_eq_Suc)
  from L(2) have l2: "L ! 2 = [Fin 0, Fin 0, Fin 0]"
    by (simp add: nd r3)
  from Lc(2)[rule_format, of 0] have l4: "Lc ! 4 = [Fin 0, Fin 0, Fin 0, Fin 0, Fin 0, Fin 0]"
    by (simp add: nd r6)
  from Lc(2)[rule_format, of 1] have l5: "Lc ! 5 = [Fin 0, Fin 0, Fin 0, Fin 0, Fin 0, Fin 0]"
    by (simp add: nd r6)
  from h1 h2 h3 L(1) l2 Lc(1) l4 l5 show ?thesis
    by blast
qed

end
